(* ===== verification/Prelude.thy ===== *)
theory Prelude
  imports Complex_Main "HOL-Library.Word" "HOL-Library.State_Monad"
begin

text \<open>
  What the components share: names for the C integer types of the 32-bit x86 target, the
  status codes of \<^verbatim>\<open>utils/Errors.h\<close> and \<^verbatim>\<open>errno.h\<close> the sources use, the
  state monad in which stateful C and C++ code is written, decimal printing and parsing as
  the C library does them, and the locale of invariants of a guarded machine.
\<close>

unbundle bit_operations_syntax

section \<open>Machine types\<close>

text \<open>
  \<^verbatim>\<open>TARGET_ARCH := x86\<close>: \<^verbatim>\<open>int\<close>, \<^verbatim>\<open>unsigned\<close>, \<^verbatim>\<open>long\<close>,
  \<^verbatim>\<open>size_t\<close>, \<^verbatim>\<open>uintptr_t\<close> and pointers have 32 bits. A signed value is a
  word read with \<open>sint\<close>. Address 0 is the null pointer.
\<close>

type_synonym u8 = "8 word"
type_synonym u32 = "32 word"
type_synonym s32 = "32 word"
type_synonym u64 = "64 word"

section \<open>Status codes\<close>

abbreviation (input) OK :: int where "OK \<equiv> 0"
abbreviation (input) NO_ERROR :: int where "NO_ERROR \<equiv> 0"
abbreviation (input) NAME_NOT_FOUND :: int where "NAME_NOT_FOUND \<equiv> - 2"
abbreviation (input) NO_MEMORY :: int where "NO_MEMORY \<equiv> - 12"
abbreviation (input) BAD_VALUE :: int where "BAD_VALUE \<equiv> - 22"
abbreviation (input) INVALID_OPERATION :: int where "INVALID_OPERATION \<equiv> - 38"
abbreviation (input) BAD_TYPE :: int where "BAD_TYPE \<equiv> - 2147483647"
abbreviation (input) EINVAL :: int where "EINVAL \<equiv> 22"
abbreviation (input) ENOMEM :: int where "ENOMEM \<equiv> 12"

section \<open>Stateful code\<close>

definition gets :: "('s \<Rightarrow> 'a) \<Rightarrow> ('s, 'a) state" where
  "gets f = State (\<lambda>s. (f s, s))"

definition modify :: "('s \<Rightarrow> 's) \<Rightarrow> ('s, unit) state" where
  "modify f = State (\<lambda>s. ((), f s))"

definition whenM :: "bool \<Rightarrow> ('s, unit) state \<Rightarrow> ('s, unit) state" where
  "whenM b m = (if b then m else State_Monad.return ())"

definition exec :: "('s, 'a) state \<Rightarrow> 's \<Rightarrow> 's" where
  "exec m s = snd (run_state m s)"

definition result :: "('s, 'a) state \<Rightarrow> 's \<Rightarrow> 'a" where
  "result m s = fst (run_state m s)"

lemma run_state_gets [simp]: "run_state (gets f) s = (f s, s)"
  by (simp add: gets_def)

lemma run_state_modify [simp]: "run_state (modify f) s = ((), f s)"
  by (simp add: modify_def)

lemma run_state_whenM [simp]:
  "run_state (whenM b m) s = (if b then run_state m s else ((), s))"
  by (simp add: whenM_def)

lemma run_state_if [simp]:
  "run_state (if b then m else n) s = (if b then run_state m s else run_state n s)"
  by simp

lemma run_state_let [simp]: "run_state (let x = v in m x) s = (let x = v in run_state (m x) s)"
  by simp

lemma run_state_case_prod [simp]:
  "run_state (case p of (x, y) \<Rightarrow> m x y) s = (case p of (x, y) \<Rightarrow> run_state (m x y) s)"
  by (cases p) simp

lemma run_state_case_sum [simp]:
  "run_state (case x of Inl a \<Rightarrow> f a | Inr b \<Rightarrow> g b) s =
     (case x of Inl a \<Rightarrow> run_state (f a) s | Inr b \<Rightarrow> run_state (g b) s)"
  by (cases x) simp_all

lemma run_state_case_option [simp]:
  "run_state (case x of None \<Rightarrow> m | Some b \<Rightarrow> g b) s =
     (case x of None \<Rightarrow> run_state m s | Some b \<Rightarrow> run_state (g b) s)"
  by (cases x) simp_all

lemma exec_return [simp]: "exec (State_Monad.return x) s = s"
  by (simp add: exec_def)

lemma exec_gets [simp]: "exec (gets f) s = s" "result (gets f) s = f s"
  by (simp_all add: exec_def result_def)

lemma exec_modify [simp]: "exec (modify f) s = f s"
  by (simp add: exec_def)

lemma result_return [simp]: "result (State_Monad.return x) s = x"
  by (simp add: result_def)

lemma exec_if [simp]: "exec (if b then m else n) s = (if b then exec m s else exec n s)"
  by simp

lemma exec_whenM [simp]: "exec (whenM b m) s = (if b then exec m s else s)"
  by (simp add: whenM_def)

lemma result_if [simp]: "result (if b then m else n) s = (if b then result m s else result n s)"
  by simp

lemma exec_bind: "exec (m \<bind> f) s = exec (f (result m s)) (exec m s)"
  by (simp add: exec_def result_def split: prod.split)

lemma result_bind: "result (m \<bind> f) s = result (f (result m s)) (exec m s)"
  by (simp add: exec_def result_def split: prod.split)

lemma run_state_split: "run_state m s = (result m s, exec m s)"
  by (simp add: exec_def result_def)

section \<open>Invariants of guarded machines\<close>

text \<open>
  A component is a set of operations (events) on a state; an operation may be called only
  where its guard (the contract of the interface) holds. The reachable states are those
  that sequences of allowed calls produce.
\<close>

inductive reach :: "('e \<Rightarrow> 's \<Rightarrow> bool) \<Rightarrow> ('e \<Rightarrow> 's \<Rightarrow> 's) \<Rightarrow> ('s \<Rightarrow> bool) \<Rightarrow> 's \<Rightarrow> bool"
  for guard step init where
  reach_init: "init s \<Longrightarrow> reach guard step init s"
| reach_step: "reach guard step init s \<Longrightarrow> guard e s \<Longrightarrow> reach guard step init (step e s)"

locale machine =
  fixes guard :: "'e \<Rightarrow> 's \<Rightarrow> bool"
    and step :: "'e \<Rightarrow> 's \<Rightarrow> 's"
    and init :: "'s \<Rightarrow> bool"
    and inv :: "'s \<Rightarrow> bool"
  assumes inv_init: "init s \<Longrightarrow> inv s"
    and inv_step: "inv s \<Longrightarrow> guard e s \<Longrightarrow> inv (step e s)"
begin

lemma reach_inv: "reach guard step init s \<Longrightarrow> inv s"
  by (induction rule: reach.induct) (auto intro: inv_init inv_step)

end

text \<open>A machine whose operations may be called in any state keeps its invariant in any run.\<close>

locale free_machine =
  fixes step :: "'e \<Rightarrow> 's \<Rightarrow> 's"
    and inv :: "'s \<Rightarrow> bool"
  assumes keeps: "inv s \<Longrightarrow> inv (step e s)"
begin

lemma run_inv: "inv s \<Longrightarrow> inv (fold step es s)"
  by (induction es arbitrary: s) (auto intro: keeps)

sublocale machine "\<lambda>e s. True" step inv inv
  by unfold_locales (auto intro: keeps)

end

section \<open>Simulation\<close>

text \<open>
  A specification is a relation: the call, the state before, what the call answers and the state
  after. A machine implements it if each allowed call does what the specification allows, seen
  through an abstraction of the state; then so does each sequence of calls.
\<close>

inductive spec_run :: "('e \<Rightarrow> 'a \<Rightarrow> 'r \<Rightarrow> 'a \<Rightarrow> bool) \<Rightarrow> ('e \<times> 'r) list \<Rightarrow> 'a \<Rightarrow> 'a \<Rightarrow> bool" for spec where
  run_done: "spec_run spec [] a a"
| run_more: "spec e a r b \<Longrightarrow> spec_run spec ers b c \<Longrightarrow> spec_run spec ((e, r) # ers) a c"

inductive_cases run_doneE [elim!]: "spec_run spec [] a b"
inductive_cases run_moreE [elim]: "spec_run spec (er # ers) a b"

fun allowed_run :: "('e \<Rightarrow> 's \<Rightarrow> bool) \<Rightarrow> ('e \<Rightarrow> 's \<Rightarrow> 's) \<Rightarrow> 'e list \<Rightarrow> 's \<Rightarrow> bool" where
  "allowed_run guard step [] s = True"
| "allowed_run guard step (e # es) s = (guard e s \<and> allowed_run guard step es (step e s))"

fun observed :: "('e \<Rightarrow> 's \<Rightarrow> 's) \<Rightarrow> ('e \<Rightarrow> 's \<Rightarrow> 'r) \<Rightarrow> 'e list \<Rightarrow> 's \<Rightarrow> ('e \<times> 'r) list" where
  "observed step answer [] s = []"
| "observed step answer (e # es) s = (e, answer e s) # observed step answer es (step e s)"

locale simulation = machine guard step init inv
  for guard :: "'e \<Rightarrow> 's \<Rightarrow> bool" and step init inv +
  fixes answer :: "'e \<Rightarrow> 's \<Rightarrow> 'r"
    and spec :: "'e \<Rightarrow> 'a \<Rightarrow> 'r \<Rightarrow> 'a \<Rightarrow> bool"
    and abs :: "'s \<Rightarrow> 'a"
  assumes simulates: "inv s \<Longrightarrow> guard e s \<Longrightarrow> spec e (abs s) (answer e s) (abs (step e s))"
begin

lemma run_simulates:
  "inv s \<Longrightarrow> allowed_run guard step es s \<Longrightarrow> inv (fold step es s) \<and>
     spec_run spec (observed step answer es s) (abs s) (abs (fold step es s))"
proof (induction es arbitrary: s)
  case (Cons e es)
  then have "guard e s" "inv (step e s)" "allowed_run guard step es (step e s)" by (auto intro: inv_step)
  with Cons.IH [of "step e s"] simulates [OF Cons.prems(1)] show ?case by (auto intro: run_more)
qed (simp add: run_done)

end


section \<open>Decimal numbers as the C library prints and parses them\<close>

text \<open>\<^verbatim>\<open>%d\<close>: the decimal digits, with a sign for a negative value.\<close>

definition digit_char :: "nat \<Rightarrow> char" where
  "digit_char d = char_of (48 + d)"

fun show_nat :: "nat \<Rightarrow> string" where
  "show_nat n = (if n < 10 then [digit_char n] else show_nat (n div 10) @ [digit_char (n mod 10)])"

declare show_nat.simps [simp del]

definition show_int :: "int \<Rightarrow> string" where
  "show_int i = (if i < 0 then CHR ''-'' # show_nat (nat (- i)) else show_nat (nat i))"

text \<open>\<^verbatim>\<open>snprintf\<close>: the length of the whole text, and what fits in the buffer.\<close>

definition snprintf :: "nat \<Rightarrow> string \<Rightarrow> nat \<times> string" where
  "snprintf n txt = (length txt, take (n - 1) txt)"

text \<open>
  \<^verbatim>\<open>strtol(s, NULL, 10)\<close> on a 32-bit \<^verbatim>\<open>long\<close>: leading white space, an
  optional sign, digits up to the first other character, saturation at the bounds.
\<close>

definition is_digit :: "char \<Rightarrow> bool" where
  "is_digit c \<longleftrightarrow> 48 \<le> (of_char c :: nat) \<and> (of_char c :: nat) \<le> 57"

definition is_space :: "char \<Rightarrow> bool" where
  "is_space c \<longleftrightarrow> (of_char c :: nat) = 32 \<or> (9 \<le> (of_char c :: nat) \<and> (of_char c :: nat) \<le> 13)"

definition digits_value :: "string \<Rightarrow> nat" where
  "digits_value cs = foldl (\<lambda>v c. 10 * v + (of_char c - 48)) 0 cs"

definition LONG_MAX :: int where "LONG_MAX = 2147483647"
definition LONG_MIN :: int where "LONG_MIN = - 2147483648"

definition strtol10 :: "string \<Rightarrow> int" where
  "strtol10 s =
     (let t = dropWhile is_space s;
          neg = (case t of c # _ \<Rightarrow> c = CHR ''-'' | [] \<Rightarrow> False);
          u = (case t of c # r \<Rightarrow> if c = CHR ''-'' \<or> c = CHR ''+'' then r else t | [] \<Rightarrow> []);
          v = int (digits_value (takeWhile is_digit u))
      in max LONG_MIN (min LONG_MAX (if neg then - v else v)))"

text \<open>A C string: the bytes before the terminator.\<close>

definition cstr :: "string \<Rightarrow> string" where
  "cstr s = takeWhile (\<lambda>c. c \<noteq> CHR 0x00) s"

lemma of_char_digit_char: "d < 10 \<Longrightarrow> (of_char (digit_char d) :: nat) = 48 + d"
  by (simp add: digit_char_def)

lemma is_digit_digit_char [simp]: "d < 10 \<Longrightarrow> is_digit (digit_char d)"
  by (simp add: is_digit_def of_char_digit_char)

lemma show_nat_digits: "list_all is_digit (show_nat n)"
proof (induction n rule: show_nat.induct)
  case (1 n)
  then show ?case by (subst show_nat.simps) simp
qed

lemma show_nat_nonempty: "show_nat n \<noteq> []"
  by (subst show_nat.simps) simp

lemma digits_value_snoc:
  "digits_value (cs @ [c]) = 10 * digits_value cs + (of_char c - 48)"
  by (simp add: digits_value_def)

lemma digits_value_show_nat: "digits_value (show_nat n) = n"
proof (induction n rule: show_nat.induct)
  case (1 n)
  show ?case
  proof (cases "n < 10")
    case True
    then show ?thesis
      by (subst show_nat.simps) (simp add: digits_value_def of_char_digit_char)
  next
    case False
    with 1 show ?thesis
      by (subst show_nat.simps) (simp add: digits_value_snoc of_char_digit_char)
  qed
qed

lemma length_show_nat: "n < 10 ^ k \<Longrightarrow> 0 < k \<Longrightarrow> length (show_nat n) \<le> k"
proof (induction k arbitrary: n)
  case 0
  then show ?case by simp
next
  case (Suc k)
  show ?case
  proof (cases "n < 10")
    case True
    then show ?thesis by (subst show_nat.simps) simp
  next
    case False
    with Suc.prems have k: "0 < k" by (cases k) auto
    from Suc.prems have "n div 10 < 10 ^ k" by (simp add: less_mult_imp_div_less mult.commute)
    with Suc.IH k have "length (show_nat (n div 10)) \<le> k" by blast
    with False show ?thesis by (subst show_nat.simps) simp
  qed
qed

lemma digit_not_special:
  assumes "is_digit c"
  shows "\<not> is_space c" "c \<noteq> CHR ''-''" "c \<noteq> CHR ''+''" "c \<noteq> CHR 0x00" "c \<noteq> CHR 0x0A"
  using assms by (auto simp: is_digit_def is_space_def)

lemma takeWhile_digits_append:
  "list_all is_digit ds \<Longrightarrow> (r = [] \<or> \<not> is_digit (hd r)) \<Longrightarrow> takeWhile is_digit (ds @ r) = ds"
  by (induction ds) (auto simp: takeWhile_eq_Nil_iff)

text \<open>Parsing what was printed gives the value back, whatever follows the digits.\<close>

lemma strtol10_show_int:
  assumes range: "LONG_MIN \<le> i" "i \<le> LONG_MAX"
    and rest: "r = [] \<or> \<not> is_digit (hd r)"
  shows "strtol10 (show_int i @ r) = i"
proof -
  have tw: "takeWhile is_digit (show_nat n @ r) = show_nat n" for n
    using show_nat_digits rest by (rule takeWhile_digits_append)
  show ?thesis
  proof (cases "i < 0")
    case True
    have "\<not> is_space (CHR ''-'')" by (simp add: is_space_def)
    with True range show ?thesis
      by (simp add: strtol10_def show_int_def tw digits_value_show_nat)
  next
    case False
    obtain c cs where c: "show_nat (nat i) = c # cs"
      using show_nat_nonempty by (cases "show_nat (nat i)") auto
    with show_nat_digits [of "nat i"] have d: "is_digit c" by simp
    from tw [of "nat i"] c d have tw': "takeWhile is_digit (cs @ r) = cs" by simp
    have val: "digits_value (c # cs) = nat i" using digits_value_show_nat [of "nat i"] c by simp
    from False range d show ?thesis
      by (simp add: strtol10_def show_int_def c digit_not_special tw' val)
  qed
qed

lemma length_show_int:
  assumes "LONG_MIN \<le> i" "i \<le> LONG_MAX"
  shows "length (show_int i) \<le> 11"
proof -
  have "nat (- i) < 10 ^ 10" "nat i < 10 ^ 10"
    using assms by (auto simp: LONG_MIN_def LONG_MAX_def)
  then have "length (show_nat (nat (- i))) \<le> 10" "length (show_nat (nat i)) \<le> 10"
    by (auto intro: length_show_nat)
  then show ?thesis by (auto simp: show_int_def)
qed

lemma show_int_nonempty: "show_int i \<noteq> []"
  by (simp add: show_int_def show_nat_nonempty)

lemma show_int_no_nul: "CHR 0x00 \<notin> set (show_int i)"
proof -
  have "CHR 0x00 \<notin> set (show_nat n)" for n
    using show_nat_digits [of n] by (auto simp: list_all_iff dest: digit_not_special)
  then show ?thesis by (simp add: show_int_def)
qed

lemma show_int_no_newline: "CHR 0x0A \<notin> set (show_int i)"
proof -
  have "CHR 0x0A \<notin> set (show_nat n)" for n
    using show_nat_digits [of n] by (auto simp: list_all_iff dest: digit_not_special)
  then show ?thesis by (simp add: show_int_def)
qed

lemma sint_s32_range: "LONG_MIN \<le> sint (v :: s32)" "sint (v :: s32) \<le> LONG_MAX"
  using sint_ge [of v] sint_lt [of v] by (simp_all add: LONG_MIN_def LONG_MAX_def)

section \<open>Words read as integers\<close>

lemma sint_small: "uint (w :: s32) < 2 ^ 31 \<Longrightarrow> sint w = uint w"
  unfolding sint_uint
  by (rule signed_take_bit_int_eq_self) (simp_all add: order_trans [OF _ uint_ge_0])

lemma div_le_dividend_pos: "0 \<le> a \<Longrightarrow> 0 < b \<Longrightarrow> a div b \<le> (a :: int)"
  by (metis div_by_1 int_one_le_iff_zero_less zdiv_mono2 zero_less_one)

lemma uint_drop_bit_div: "uint (drop_bit n w) = uint (w :: 'a::len word) div 2 ^ n"
  unfolding unsigned_drop_bit_eq by (subst drop_bit_eq_div) (simp add: take_bit_int_eq_self uint_lt2p)

lemma signed_drop_bit_small:
  assumes "uint (w :: s32) < 2 ^ 31"
  shows "signed_drop_bit n w = drop_bit n w"
proof -
  have "uint w div 2 ^ n \<le> uint w" by (intro div_le_dividend_pos) simp_all
  then have "uint (drop_bit n w) < 2 ^ 31"
    using assms by (simp add: uint_drop_bit_div)
  then have "sint (signed_drop_bit n w) = sint (drop_bit n w)"
    using assms by (simp only: sint_signed_drop_bit_eq sint_small uint_drop_bit_div) (simp only: drop_bit_eq_div)
  then show ?thesis by (rule signed_word_eqI)
qed

end
