(* ===== verification/Posix.thy ===== *)
theory Posix
  imports Prelude
begin

text \<open>
  The operating system as the native programs see it. A call leaves one event in the
  history; what it returns is chosen by a parameter, a function of the history so far and
  the arguments, so a theorem for every such parameter covers every behaviour of the
  kernel, errors, partial transfers and changing files included. Failing calls also give
  the value they leave in \<^verbatim>\<open>errno\<close>; as POSIX says, a call that succeeds leaves it alone.
\<close>

section \<open>Calls, their results and the history\<close>

datatype sys_event =
    EvOpen string nat int
  | EvRead int nat "string option"
  | EvWrite int string int
  | EvClose int
  | EvUsleep nat
  | EvClock s32
  | EvStat string int
  | EvUnlink string int
  | EvUmount string int
  | EvRmdir string int
  | EvUmask nat
  | EvOpendir string bool
  | EvReaddir "string option"
  | EvClosedir
  | EvFopen string bool
  | EvFgets "string option"
  | EvFclose
  | EvScandir string "string list option"
  | EvConfigLoad string
  | EvConfigFree

type_synonym history = "sys_event list"

text \<open>
  The newest event is the head of the history. \<open>Inl\<close> of a result is a failure with its
  \<^verbatim>\<open>errno\<close>.
\<close>

record posix =
  px_open :: "history \<Rightarrow> string \<Rightarrow> nat \<Rightarrow> int + int"
  px_read :: "history \<Rightarrow> int \<Rightarrow> nat \<Rightarrow> int + string"
  px_write :: "history \<Rightarrow> int \<Rightarrow> string \<Rightarrow> int + nat"
  px_close :: "history \<Rightarrow> int \<Rightarrow> int option"
  px_clock :: "history \<Rightarrow> s32"

record sys =
  hist :: history
  errno :: int

section \<open>The calls\<close>

definition O_RDONLY :: nat where "O_RDONLY = 0"
definition O_WRONLY :: nat where "O_WRONLY = 1"
definition O_RDWR :: nat where "O_RDWR = 2"

definition log_event :: "sys_event \<Rightarrow> ('a sys_scheme, unit) state" where
  "log_event ev = modify (\<lambda>s. s\<lparr>hist := ev # hist s\<rparr>)"

definition set_errno :: "int \<Rightarrow> ('a sys_scheme, unit) state" where
  "set_errno e = modify (\<lambda>s. s\<lparr>errno := e\<rparr>)"

definition sys_open :: "'b posix_scheme \<Rightarrow> string \<Rightarrow> nat \<Rightarrow> ('a sys_scheme, int) state" where
  "sys_open P path flags = do {
     h \<leftarrow> gets hist;
     (case px_open P h path flags of
        Inl e \<Rightarrow> do { log_event (EvOpen path flags (- 1)); set_errno e; State_Monad.return (- 1) }
      | Inr fd \<Rightarrow> do { log_event (EvOpen path flags fd); State_Monad.return fd })
   }"

definition sys_read :: "'b posix_scheme \<Rightarrow> int \<Rightarrow> nat \<Rightarrow> ('a sys_scheme, string option) state" where
  "sys_read P fd n = do {
     h \<leftarrow> gets hist;
     (case px_read P h fd n of
        Inl e \<Rightarrow> do { log_event (EvRead fd n None); set_errno e; State_Monad.return None }
      | Inr bs \<Rightarrow> do { log_event (EvRead fd n (Some bs)); State_Monad.return (Some bs) })
   }"

text \<open>\<^verbatim>\<open>write\<close> returns the number of bytes taken, or -1.\<close>

definition sys_write :: "'b posix_scheme \<Rightarrow> int \<Rightarrow> string \<Rightarrow> ('a sys_scheme, int) state" where
  "sys_write P fd bs = do {
     h \<leftarrow> gets hist;
     (case px_write P h fd bs of
        Inl e \<Rightarrow> do { log_event (EvWrite fd bs (- 1)); set_errno e; State_Monad.return (- 1) }
      | Inr n \<Rightarrow> do { log_event (EvWrite fd bs (int n)); State_Monad.return (int n) })
   }"

definition sys_close :: "'b posix_scheme \<Rightarrow> int \<Rightarrow> ('a sys_scheme, unit) state" where
  "sys_close P fd = do {
     h \<leftarrow> gets hist;
     log_event (EvClose fd);
     (case px_close P h fd of Some e \<Rightarrow> set_errno e | None \<Rightarrow> State_Monad.return ())
   }"

definition sys_usleep :: "nat \<Rightarrow> ('a sys_scheme, unit) state" where
  "sys_usleep us = log_event (EvUsleep us)"

definition sys_clock :: "'b posix_scheme \<Rightarrow> ('a sys_scheme, s32) state" where
  "sys_clock P = do {
     h \<leftarrow> gets hist;
     log_event (EvClock (px_clock P h));
     State_Monad.return (px_clock P h)
   }"

text \<open>
  What POSIX promises and the sources rely on: a descriptor is not negative, a read gives at
  most the bytes asked for, and a write takes at most the bytes offered.
\<close>

definition posix_laws :: "'b posix_scheme \<Rightarrow> bool" where
  "posix_laws P \<longleftrightarrow>
     (\<forall>h p f fd. px_open P h p f = Inr fd \<longrightarrow> 0 \<le> fd) \<and>
     (\<forall>h fd n bs. px_read P h fd n = Inr bs \<longrightarrow> length bs \<le> n) \<and>
     (\<forall>h fd bs n. px_write P h fd bs = Inr n \<longrightarrow> n \<le> length bs)"

section \<open>What was written to which file\<close>

text \<open>
  The file behind a descriptor at the end of a history: the last successful
  \<^verbatim>\<open>open\<close> that returned it.
\<close>

fun fd_path :: "history \<Rightarrow> int \<Rightarrow> string option" where
  "fd_path [] fd = None"
| "fd_path (EvOpen p f fd' # h) fd = (if fd' = fd \<and> 0 \<le> fd then Some p else fd_path h fd)"
| "fd_path (_ # h) fd = fd_path h fd"

text \<open>The text last written whole to a file, as a device node keeps it.\<close>

fun last_written :: "history \<Rightarrow> string \<Rightarrow> string option" where
  "last_written [] p = None"
| "last_written (EvWrite fd bs n # h) p =
     (if fd_path h fd = Some p \<and> n = int (length bs) then Some bs else last_written h p)"
| "last_written (_ # h) p = last_written h p"

text \<open>How often a file was written, for files that are triggers.\<close>

fun times_written :: "history \<Rightarrow> string \<Rightarrow> nat" where
  "times_written [] p = 0"
| "times_written (EvWrite fd bs n # h) p =
     (if fd_path h fd = Some p \<and> n = int (length bs) then Suc (times_written h p) else times_written h p)"
| "times_written (_ # h) p = times_written h p"

section \<open>The interface of a routine that writes one value to one file\<close>

text \<open>A kernel on which every \<^verbatim>\<open>open\<close> and \<^verbatim>\<open>write\<close> succeeds.\<close>

definition px_works :: "'b posix_scheme \<Rightarrow> bool" where
  "px_works P \<longleftrightarrow> (\<forall>h p f. \<exists>fd. px_open P h p f = Inr fd \<and> 0 \<le> fd) \<and>
     (\<forall>h fd bs. px_write P h fd bs = Inr (length bs))"

lemma px_works_openE:
  assumes "px_works P" obtains fd where "px_open P h p f = Inr fd" "0 \<le> fd"
  using assms unfolding px_works_def by blast

lemma px_works_write: "px_works P \<Longrightarrow> px_write P h fd bs = Inr (length bs)"
  by (simp add: px_works_def)

text \<open>
  Open the file, write the text, close it: the contract of \<^verbatim>\<open>write_int\<close> of the light
  module and of \<^verbatim>\<open>sysfs_write\<close> of the power module, and what their callers get from
  it for a sequence of writes.
\<close>

locale file_writer =
  fixes works :: bool
    and put :: "string \<Rightarrow> 'v \<Rightarrow> 's \<Rightarrow> 's"
    and render :: "'v \<Rightarrow> string"
    and history_of :: "'s \<Rightarrow> history"
  assumes put_last:
      "works \<Longrightarrow> last_written (history_of (put p v s)) = (last_written (history_of s))(p \<mapsto> render v)"
    and put_times:
      "works \<Longrightarrow> times_written (history_of (put p v s)) =
         (times_written (history_of s))(p := Suc (times_written (history_of s) p))"
    and put_grows: "\<exists>evs. history_of (put p v s) = evs @ history_of s"
begin

lemma puts_last:
  "works \<Longrightarrow> last_written (history_of (fold (\<lambda>(p, v). put p v) ws s)) =
     last_written (history_of s) ++ map_of (rev (map (\<lambda>(p, v). (p, render v)) ws))"
proof (induction ws arbitrary: s)
  case (Cons w ws)
  obtain p v where w: "w = (p, v)" by (cases w)
  with Cons show ?case by (simp add: put_last)
qed simp

lemma puts_times:
  "works \<Longrightarrow> times_written (history_of (fold (\<lambda>(p, v). put p v) ws s)) p =
     times_written (history_of s) p + length (filter (\<lambda>w. fst w = p) ws)"
proof (induction ws arbitrary: s)
  case (Cons w ws)
  then show ?case by (cases w) (simp add: put_times)
qed simp

lemma puts_grows: "\<exists>evs. history_of (fold (\<lambda>(p, v). put p v) ws s) = evs @ history_of s"
proof (induction ws arbitrary: s)
  case (Cons w ws)
  obtain p v where w: "w = (p, v)" by (cases w)
  obtain e1 where e1: "history_of (put p v s) = e1 @ history_of s" using put_grows by blast
  obtain e2 where "history_of (fold (\<lambda>(p, v). put p v) ws (put p v s)) = e2 @ history_of (put p v s)"
    using Cons by blast
  with e1 w show ?case by auto
qed simp

end

text \<open>A kernel to run examples on: descriptor 3 for every file, writes taken whole.\<close>

definition demo_posix :: "s32 \<Rightarrow> posix" where
  "demo_posix t = \<lparr>px_open = \<lambda>h p f. Inr 3, px_read = \<lambda>h fd n. Inr [], px_write = \<lambda>h fd bs. Inr (length bs),
     px_close = \<lambda>h fd. None, px_clock = \<lambda>h. t\<rparr>"

lemma demo_posix_works: "px_works (demo_posix t)"
  by (simp add: px_works_def demo_posix_def)

end
