(* ===== verification/Float32.thy ===== *)
theory Float32
  imports Prelude "HOL-Library.Log_Nat"
begin

text \<open>
  Single-precision arithmetic as the compiled code does it (SSE, round to nearest, ties to
  even). A finite \<^verbatim>\<open>float\<close> is the rational number it denotes; every operation is the
  exact rational operation followed by one rounding to a 24-bit significand. The values the
  sources compute lie between \<open>2^-24\<close> and \<open>2^42\<close> in magnitude, or are 0, so exponents
  never leave the range of normal numbers and are not bounded here.
\<close>

section \<open>Rounding\<close>

definition rne :: "rat \<Rightarrow> int" where
  "rne x = (let f = \<lfloor>x\<rfloor>; r = x - of_int f in
     if r < 1 / 2 \<or> (r = 1 / 2 \<and> even f) then f else f + 1)"

definition pow2 :: "int \<Rightarrow> rat" where
  "pow2 e = 2 powi e"

text \<open>The exponent of the last place: \<open>2^23 \<le> x / 2^e < 2^24\<close>.\<close>

definition ulp_exp :: "rat \<Rightarrow> int" where
  "ulp_exp x = (let (n, d) = quotient_of x; e = bitlen n - bitlen d - 24 in
     if x < pow2 (e + 24) then e else e + 1)"

definition f32_round :: "rat \<Rightarrow> rat" where
  "f32_round x = (if x = 0 then 0 else
     let e = ulp_exp \<bar>x\<bar>; m = of_int (rne (\<bar>x\<bar> / pow2 e)) * pow2 e
     in if x < 0 then - m else m)"

section \<open>Operations\<close>

definition f32_of_int :: "int \<Rightarrow> rat" where
  "f32_of_int n = f32_round (of_int n)"

definition f32_sub :: "rat \<Rightarrow> rat \<Rightarrow> rat" where
  "f32_sub a b = f32_round (a - b)"

definition f32_mul :: "rat \<Rightarrow> rat \<Rightarrow> rat" where
  "f32_mul a b = f32_round (a * b)"

definition f32_div :: "rat \<Rightarrow> rat \<Rightarrow> rat" where
  "f32_div a b = f32_round (a / b)"

text \<open>The conversion \<^verbatim>\<open>(int)x\<close> drops the fraction.\<close>

definition f32_to_int :: "rat \<Rightarrow> int" where
  "f32_to_int x = (if x < 0 then - \<lfloor>- x\<rfloor> else \<lfloor>x\<rfloor>)"

section \<open>The rounding error and monotonicity\<close>

lemma pow2_pos [simp]: "0 < pow2 e"
  by (simp add: pow2_def)

lemma pow2_nonzero [simp]: "pow2 e \<noteq> 0"
  by (simp add: pow2_def)

lemma pow2_add: "pow2 (a + b) = pow2 a * pow2 b"
  by (simp add: pow2_def power_int_add)

lemma pow2_strict: "a < b \<Longrightarrow> pow2 a < pow2 b"
  by (simp add: pow2_def power_int_strict_increasing)

lemma pow2_less_iff [simp]: "pow2 a < pow2 b \<longleftrightarrow> a < b"
  by (metis pow2_strict linorder_neqE_linordered_idom order_less_asym order_less_irrefl)

lemma pow2_le_iff [simp]: "pow2 a \<le> pow2 b \<longleftrightarrow> a \<le> b"
  by (simp flip: not_less)

lemma pow2_nat: "0 \<le> e \<Longrightarrow> pow2 e = 2 ^ nat e"
  by (simp add: pow2_def power_int_def)

lemma rne_error: "\<bar>of_int (rne x) - x\<bar> \<le> 1 / 2"
proof -
  have "of_int \<lfloor>x\<rfloor> \<le> x" "x < of_int \<lfloor>x\<rfloor> + 1" by linarith+
  then show ?thesis unfolding rne_def Let_def abs_le_iff by (simp split: if_split) linarith
qed

lemma rne_of_int [simp]: "rne (of_int n) = n"
  by (simp add: rne_def)

lemma rne_mono:
  assumes "x \<le> y" shows "rne x \<le> rne y"
proof (cases "\<lfloor>x\<rfloor> = \<lfloor>y\<rfloor>")
  case True
  with assms show ?thesis by (auto simp: rne_def Let_def)
next
  case False
  with assms floor_mono [of x y] have "\<lfloor>x\<rfloor> + 1 \<le> \<lfloor>y\<rfloor>" by linarith
  then show ?thesis by (auto simp: rne_def Let_def)
qed

lemma ulp_exp_bounds:
  assumes "0 < x"
  shows "pow2 (ulp_exp x + 23) \<le> x \<and> x < pow2 (ulp_exp x + 24)"
proof -
  obtain n d where q: "quotient_of x = (n, d)" by (cases "quotient_of x")
  from q have d: "0 < d" by (rule quotient_of_denom_pos)
  from q have x: "x = of_int n / of_int d" by (rule quotient_of_div)
  with assms d have n: "0 < n" by (simp add: zero_less_divide_iff)
  have scale: "pow2 (bitlen z - 1) \<le> of_int z \<and> of_int z < pow2 (bitlen z)" if "0 < z" for z
  proof -
    have "0 < bitlen z" using that by (simp add: bitlen_alt_def)
    with bitlen_bounds [OF that] show ?thesis
      by (simp add: pow2_nat)
  qed
  let ?k = "bitlen n - bitlen d"
  have lo: "pow2 (?k - 1) \<le> x"
  proof -
    have "pow2 (?k - 1) * of_int d \<le> pow2 (?k - 1) * pow2 (bitlen d)"
      using scale [OF d] by simp
    also have "\<dots> = pow2 (bitlen n - 1)" by (simp flip: pow2_add)
    also have "\<dots> \<le> of_int n" using scale [OF n] by simp
    finally show ?thesis using d by (simp add: x field_simps)
  qed
  have hi: "x < pow2 (?k + 1)"
  proof -
    have "of_int n < pow2 (bitlen n)" using scale [OF n] by simp
    also have "\<dots> = pow2 (?k + 1) * pow2 (bitlen d - 1)" by (simp flip: pow2_add)
    also have "\<dots> \<le> pow2 (?k + 1) * of_int d" using scale [OF d] by simp
    finally show ?thesis using d by (simp add: x field_simps)
  qed
  from lo hi show ?thesis by (auto simp: ulp_exp_def q Let_def algebra_simps)
qed

lemma f32_round_0 [simp]: "f32_round 0 = 0"
  by (simp add: f32_round_def)

lemma f32_round_neg: "f32_round (- x) = - f32_round x"
  by (auto simp: f32_round_def Let_def)

lemma f32_round_pos:
  "0 < x \<Longrightarrow> f32_round x = of_int (rne (x / pow2 (ulp_exp x))) * pow2 (ulp_exp x)"
  by (simp add: f32_round_def Let_def)

text \<open>One operation has a relative error of at most \<open>2^-24\<close>.\<close>

lemma f32_round_error:
  assumes "0 \<le> x" shows "\<bar>f32_round x - x\<bar> \<le> x / 2 ^ 24"
proof (cases "x = 0")
  case False
  with assms have x: "0 < x" by simp
  let ?e = "ulp_exp x"
  have "f32_round x - x = (of_int (rne (x / pow2 ?e)) - x / pow2 ?e) * pow2 ?e"
    using x by (simp add: f32_round_pos field_simps)
  then have "\<bar>f32_round x - x\<bar> = \<bar>of_int (rne (x / pow2 ?e)) - x / pow2 ?e\<bar> * pow2 ?e"
    by (simp add: abs_mult abs_of_pos)
  also have "\<dots> \<le> 1 / 2 * pow2 ?e" by (intro mult_right_mono rne_error) (simp add: less_imp_le)
  also have "\<dots> = pow2 (?e + 23) / 2 ^ 24" by (simp add: pow2_add pow2_nat)
  also have "\<dots> \<le> x / 2 ^ 24" using ulp_exp_bounds [OF x] by simp
  finally show ?thesis .
qed simp

lemma f32_round_mono_pos:
  assumes x: "0 < x" and xy: "x \<le> y"
  shows "f32_round x \<le> f32_round y"
proof -
  from x xy have y: "0 < y" by simp
  let ?a = "ulp_exp x" and ?b = "ulp_exp y"
  have bx: "pow2 (?a + 23) \<le> x" "x < pow2 (?a + 24)" and yb: "pow2 (?b + 23) \<le> y" "y < pow2 (?b + 24)"
    using ulp_exp_bounds [OF x] ulp_exp_bounds [OF y] by auto
  from bx(1) xy yb(2) have "pow2 (?a + 23) < pow2 (?b + 24)" by linarith
  then have le: "?a \<le> ?b" by simp
  show ?thesis
  proof (cases "?a = ?b")
    case True
    have "rne (x / pow2 ?b) \<le> rne (y / pow2 ?b)" using xy by (intro rne_mono) (simp add: divide_right_mono less_imp_le)
    with True x y show ?thesis by (simp add: f32_round_pos less_imp_le)
  next
    case False
    with le have lt: "?a + 24 \<le> ?b + 23" by simp
    have "rne (x / pow2 ?a) \<le> rne (of_int (2 ^ 24))"
      using bx(2) by (intro rne_mono) (simp add: pow2_add pow2_nat field_simps less_imp_le)
    then have "rne (x / pow2 ?a) \<le> 2 ^ 24" by (simp only: rne_of_int)
    then have "(of_int (rne (x / pow2 ?a)) :: rat) \<le> 2 ^ 24" by simp
    then have "f32_round x \<le> 2 ^ 24 * pow2 ?a" using x by (simp add: f32_round_pos)
    also have "\<dots> = pow2 (?a + 24)" by (simp add: pow2_add pow2_nat)
    also have "\<dots> \<le> pow2 (?b + 23)" using lt by simp
    also have "\<dots> = 2 ^ 23 * pow2 ?b" by (simp add: pow2_add pow2_nat)
    also have "\<dots> \<le> f32_round y"
    proof -
      have "rne (of_int (2 ^ 23)) \<le> rne (y / pow2 ?b)"
        using yb(1) by (intro rne_mono) (simp add: pow2_add pow2_nat field_simps less_imp_le)
      then have "2 ^ 23 \<le> rne (y / pow2 ?b)" by (simp only: rne_of_int)
      then have "(2 ^ 23 :: rat) \<le> of_int (rne (y / pow2 ?b))" by simp
      with y show ?thesis by (simp add: f32_round_pos)
    qed
    finally show ?thesis .
  qed
qed

lemma f32_round_nonneg: "0 \<le> x \<Longrightarrow> 0 \<le> f32_round x"
proof -
  assume "0 \<le> x"
  then have "\<bar>f32_round x - x\<bar> \<le> x / 2 ^ 24" "x / 2 ^ 24 \<le> x"
    using f32_round_error by (auto simp: field_simps)
  then show ?thesis by linarith
qed

lemma f32_round_mono: "x \<le> y \<Longrightarrow> f32_round x \<le> f32_round y"
proof -
  assume xy: "x \<le> y"
  consider "0 < x" | "x \<le> 0" "0 \<le> y" | "y < 0" by linarith
  then show ?thesis
  proof cases
    case 1
    then show ?thesis using xy by (rule f32_round_mono_pos)
  next
    case 2
    then have "0 \<le> f32_round (- x)" "0 \<le> f32_round y" by (auto intro: f32_round_nonneg)
    then show ?thesis by (simp add: f32_round_neg)
  next
    case 3
    then have "f32_round (- y) \<le> f32_round (- x)" using xy by (intro f32_round_mono_pos) auto
    then show ?thesis by (simp add: f32_round_neg)
  qed
qed

text \<open>Integers of at most 24 bits are exact.\<close>

lemma f32_of_int_exact:
  assumes "\<bar>n\<bar> < 2 ^ 24" shows "f32_of_int n = of_int n"
proof -
  have pos: "f32_round (of_int m) = of_int m" if m: "0 < m" "m < 2 ^ 24" for m
  proof -
    let ?x = "of_int m :: rat" and ?e = "ulp_exp (of_int m)"
    have x: "0 < ?x" using m by simp
    have "pow2 (?e + 23) \<le> ?x" using ulp_exp_bounds [OF x] by simp
    also have "?x < pow2 24" using m(2) by (simp add: pow2_nat)
    finally have e: "?e \<le> 0" by simp
    have "pow2 ?e * pow2 (- ?e) = pow2 0" by (simp flip: pow2_add)
    then have inv: "1 / pow2 ?e = pow2 (- ?e)" by (simp add: pow2_nat field_simps)
    have "?x / pow2 ?e = ?x * pow2 (- ?e)" using inv by (simp add: divide_inverse)
    also have "\<dots> = of_int (m * 2 ^ nat (- ?e))" using e by (simp add: pow2_nat)
    finally have "rne (?x / pow2 ?e) = m * 2 ^ nat (- ?e)" by (simp only: rne_of_int)
    then have "of_int (rne (?x / pow2 ?e)) = ?x / pow2 ?e"
      using \<open>?x / pow2 ?e = ?x * pow2 (- ?e)\<close> \<open>?x * pow2 (- ?e) = of_int (m * 2 ^ nat (- ?e))\<close> by simp
    then show ?thesis using x by (simp add: f32_round_pos)
  qed
  consider "0 < n" | "n = 0" | "n < 0" by linarith
  then show ?thesis
  proof cases
    case 3
    have "f32_round (- of_int (- n)) = of_int n"
      using pos [of "- n"] 3 assms by (simp only: f32_round_neg)
    then show ?thesis by (simp add: f32_of_int_def)
  qed (use assms pos in \<open>auto simp: f32_of_int_def\<close>)
qed

text \<open>A value closer than \<open>1/k\<close> to a fraction \<open>a/k\<close> that is no integer has its floor.\<close>

lemma floor_near_fraction:
  fixes y :: rat
  assumes k: "0 < k" and near: "\<bar>y - of_int a / of_int k\<bar> < 1 / of_int k" and frac: "a mod k \<noteq> 0"
  shows "\<lfloor>y\<rfloor> = a div k"
proof -
  let ?z = "of_int a / of_int k :: rat"
  have m: "0 < a mod k" "a mod k < k"
    using frac pos_mod_bound [OF k, of a] pos_mod_sign [OF k, of a] by linarith+
  have "a = k * (a div k) + a mod k" by simp
  then have "(of_int a :: rat) = of_int k * of_int (a div k) + of_int (a mod k)"
    by (metis of_int_add of_int_mult)
  then have z: "?z = of_int (a div k) + of_int (a mod k) / of_int k"
    using k by (simp add: field_simps)
  have "1 \<le> a mod k" "a mod k \<le> k - 1" using m by auto
  then have "(1 :: rat) \<le> of_int (a mod k)" "(of_int (a mod k) :: rat) \<le> of_int (k - 1)"
    by (simp_all only: of_int_le_iff of_int_1_le_iff)
  then have "1 / of_int k \<le> (of_int (a mod k) / of_int k :: rat)"
    "(of_int (a mod k) / of_int k :: rat) \<le> 1 - 1 / of_int k"
    using k by (simp_all add: field_simps)
  with z near show ?thesis by (intro floor_unique) (auto simp: abs_if split: if_splits)
qed

end
