(* ===== verification/Lights.thy ===== *)
theory Lights
  imports Posix Float32
begin

text \<open>
  The light module, \<^verbatim>\<open>liblight/lights.c\<close>: LCD backlight, button light and the
  RGB LED that the battery, notification and attention lights share. State: the three last
  requests for the LED, the mutex, the two warn-once flags and the history of system calls.
\<close>

section \<open>Data\<close>

text \<open>The fields of \<^verbatim>\<open>struct light_state_t\<close> the module reads.\<close>

record light_state =
  color :: u32
  flashMode :: s32
  flashOnMS :: s32
  flashOffMS :: s32

definition LIGHT_FLASH_NONE :: s32 where "LIGHT_FLASH_NONE = 0"

definition zero_light :: light_state where
  "zero_light = \<lparr>color = 0, flashMode = 0, flashOnMS = 0, flashOffMS = 0\<rparr>"

record lights = sys +
  g_init :: bool
  g_lock :: bool
  g_notification :: light_state
  g_battery :: light_state
  g_attention :: light_state
  read_warned :: bool
  write_warned :: bool

definition lights_start :: lights where
  "lights_start = \<lparr>hist = [], errno = 0, g_init = False, g_lock = False,
     g_notification = zero_light, g_battery = zero_light, g_attention = zero_light,
     read_warned = False, write_warned = False\<rparr>"

definition RED_LED_FILE :: string where "RED_LED_FILE = ''/sys/class/leds/red/brightness''"
definition GREEN_LED_FILE :: string where "GREEN_LED_FILE = ''/sys/class/leds/green/brightness''"
definition BLUE_LED_FILE :: string where "BLUE_LED_FILE = ''/sys/class/leds/blue/brightness''"
definition RED_BLINK_FILE :: string where "RED_BLINK_FILE = ''/sys/class/leds/red/blink''"
definition GREEN_BLINK_FILE :: string where "GREEN_BLINK_FILE = ''/sys/class/leds/green/blink''"
definition BLUE_BLINK_FILE :: string where "BLUE_BLINK_FILE = ''/sys/class/leds/blue/blink''"
definition LCD_FILE :: string where "LCD_FILE = ''/sys/class/backlight/lcd-backlight/brightness''"
definition BUTTON_FILE :: string where "BUTTON_FILE = ''/sys/class/leds/button-backlight/brightness''"

lemmas light_files =
  RED_LED_FILE_def GREEN_LED_FILE_def BLUE_LED_FILE_def
  RED_BLINK_FILE_def GREEN_BLINK_FILE_def BLUE_BLINK_FILE_def LCD_FILE_def BUTTON_FILE_def

section \<open>File access\<close>

text \<open>
  \<^verbatim>\<open>read_string\<close> stores the terminator at \<^verbatim>\<open>buf[size - 1]\<close>: outside the
  buffer when \<^verbatim>\<open>read\<close> returned 0 or -1. That store is \<open>Inl\<close> of the index.
\<close>

definition read_string :: "'b posix_scheme \<Rightarrow> string \<Rightarrow> ('a lights_scheme, int + (int \<times> string)) state" where
  "read_string P path = do {
     fd \<leftarrow> sys_open P path O_RDONLY;
     if 0 \<le> fd then do {
       r \<leftarrow> sys_read P fd 12;
       sys_close P fd;
       (let sz = (case r of None \<Rightarrow> - 1 | Some bs \<Rightarrow> int (length bs));
            buf = (case r of None \<Rightarrow> [] | Some bs \<Rightarrow> bs)
        in if sz - 1 < 0 then State_Monad.return (Inl (sz - 1))
           else State_Monad.return (Inr (sz, buf[nat (sz - 1) := CHR 0x00])))
     } else do {
       modify (\<lambda>s. s\<lparr>read_warned := True\<rparr>);
       State_Monad.return (Inr (- 1, []))
     }
   }"

definition read_int :: "'b posix_scheme \<Rightarrow> string \<Rightarrow> ('a lights_scheme, int + int option) state" where
  "read_int P path = do {
     r \<leftarrow> read_string P path;
     State_Monad.return (case r of
         Inl i \<Rightarrow> Inl i
       | Inr (sz, buffer) \<Rightarrow> Inr (if 0 < sz then Some (strtol10 (cstr buffer)) else None))
   }"

definition write_int :: "'b posix_scheme \<Rightarrow> string \<Rightarrow> s32 \<Rightarrow> ('a lights_scheme, int) state" where
  "write_int P path value = do {
     fd \<leftarrow> sys_open P path O_RDWR;
     if 0 \<le> fd then do {
       (let (bytes, buffer) = snprintf 20 (show_int (sint value) @ [CHR 0x0A]) in do {
         amt \<leftarrow> sys_write P fd (take bytes buffer);
         sys_close P fd;
         e \<leftarrow> gets errno;
         State_Monad.return (if amt = - 1 then - e else 0)
       })
     } else do {
       modify (\<lambda>s. s\<lparr>write_warned := True\<rparr>);
       e \<leftarrow> gets errno;
       State_Monad.return (- e)
     }
   }"

section \<open>Lights\<close>

definition is_lit :: "light_state \<Rightarrow> bool" where
  "is_lit st \<longleftrightarrow> color st AND 0x00ffffff \<noteq> 0"

definition rgb_to_brightness :: "light_state \<Rightarrow> s32" where
  "rgb_to_brightness st =
     (let c = color st AND 0x00ffffff
      in signed_drop_bit 8
           (77 * (signed_drop_bit 16 c AND 0x00ff) + 150 * (signed_drop_bit 8 c AND 0x00ff) + 29 * (c AND 0x00ff)))"

text \<open>\<^verbatim>\<open>dev\<close> is \<open>True\<close> for a device pointer that is not null.\<close>

definition set_light_backlight :: "'b posix_scheme \<Rightarrow> bool \<Rightarrow> light_state \<Rightarrow> ('a lights_scheme, int) state" where
  "set_light_backlight P dev st =
     (let brightness = rgb_to_brightness st in
      if \<not> dev then State_Monad.return (- 1)
      else do {
        modify (\<lambda>s. s\<lparr>g_lock := True\<rparr>);
        err \<leftarrow> write_int P LCD_FILE brightness;
        modify (\<lambda>s. s\<lparr>g_lock := False\<rparr>);
        State_Monad.return err
      })"

text \<open>\<^verbatim>\<open>(int)((float)c / 255.0f * 48.0f)\<close>\<close>

definition scale48 :: "int \<Rightarrow> int" where
  "scale48 c = f32_to_int (f32_mul (f32_div (f32_of_int c) 255) 48)"

definition set_speaker_light_locked ::
    "'b posix_scheme \<Rightarrow> bool \<Rightarrow> light_state option \<Rightarrow> ('a lights_scheme, int) state" where
  "set_speaker_light_locked P dev state =
     (if \<not> dev then State_Monad.return (- 1)
      else (case state of
        None \<Rightarrow> do {
          write_int P RED_BLINK_FILE 0;
          write_int P GREEN_BLINK_FILE 0;
          write_int P BLUE_BLINK_FILE 0;
          write_int P RED_LED_FILE 0;
          write_int P GREEN_LED_FILE 0;
          write_int P BLUE_LED_FILE 0;
          State_Monad.return 0
        }
      | Some st \<Rightarrow>
          (let mode0 = (if flashOnMS st + flashOffMS st = 0 then LIGHT_FLASH_NONE else flashMode st);
               (mode, colorRGB) =
                 (if mode0 \<noteq> LIGHT_FLASH_NONE then
                    (if 0 < sint (flashOnMS st) \<and> flashOffMS st = 0 then (LIGHT_FLASH_NONE, color st)
                     else if flashOnMS st = 0 then (LIGHT_FLASH_NONE, 0)
                     else (mode0, color st))
                  else (mode0, color st));
               red = uint (drop_bit 16 colorRGB AND 0xFF);
               green = uint (drop_bit 8 colorRGB AND 0xFF);
               blue = uint (colorRGB AND 0xFF)
           in if mode \<noteq> LIGHT_FLASH_NONE \<and> colorRGB \<noteq> 0 then
                (let r = (if 127 < red then 255 else 0 :: int);
                     g = (if 127 < green then 255 else 0 :: int);
                     b = (if 127 < blue then 255 else 0 :: int);
                     (r', g', b') = (if r = 0 \<and> g = 0 \<and> b = 0 then (255, 255, 255) else (r, g, b))
                 in do {
                   sys_usleep 20000;
                   write_int P RED_BLINK_FILE (of_bool (0 < r'));
                   write_int P GREEN_BLINK_FILE (of_bool (0 < g'));
                   write_int P BLUE_BLINK_FILE (of_bool (0 < b'));
                   State_Monad.return 0
                 })
              else do {
                write_int P RED_LED_FILE (word_of_int (scale48 red));
                write_int P GREEN_LED_FILE (word_of_int (scale48 green));
                write_int P BLUE_LED_FILE (word_of_int (scale48 blue));
                State_Monad.return 0
              })))"

definition handle_speaker_battery_locked :: "'b posix_scheme \<Rightarrow> bool \<Rightarrow> ('a lights_scheme, unit) state" where
  "handle_speaker_battery_locked P dev = do {
     set_speaker_light_locked P dev None;
     s \<leftarrow> gets id;
     (if is_lit (g_attention s) then
        do { set_speaker_light_locked P dev (Some (g_attention s)); State_Monad.return () }
      else if is_lit (g_notification s) then
        do { set_speaker_light_locked P dev (Some (g_notification s)); State_Monad.return () }
      else
        do { set_speaker_light_locked P dev (Some (g_battery s)); State_Monad.return () })
   }"

definition set_light_battery :: "'b posix_scheme \<Rightarrow> bool \<Rightarrow> light_state \<Rightarrow> ('a lights_scheme, int) state" where
  "set_light_battery P dev st = do {
     modify (\<lambda>s. s\<lparr>g_lock := True\<rparr>);
     modify (\<lambda>s. s\<lparr>g_battery := st\<rparr>);
     handle_speaker_battery_locked P dev;
     modify (\<lambda>s. s\<lparr>g_lock := False\<rparr>);
     State_Monad.return 0
   }"

definition set_light_notifications :: "'b posix_scheme \<Rightarrow> bool \<Rightarrow> light_state \<Rightarrow> ('a lights_scheme, int) state" where
  "set_light_notifications P dev st = do {
     modify (\<lambda>s. s\<lparr>g_lock := True\<rparr>);
     modify (\<lambda>s. s\<lparr>g_notification := st\<rparr>);
     handle_speaker_battery_locked P dev;
     modify (\<lambda>s. s\<lparr>g_lock := False\<rparr>);
     State_Monad.return 0
   }"

definition set_light_attention :: "'b posix_scheme \<Rightarrow> bool \<Rightarrow> light_state \<Rightarrow> ('a lights_scheme, int) state" where
  "set_light_attention P dev st = do {
     modify (\<lambda>s. s\<lparr>g_lock := True\<rparr>);
     modify (\<lambda>s. s\<lparr>g_attention := st\<rparr>);
     handle_speaker_battery_locked P dev;
     modify (\<lambda>s. s\<lparr>g_lock := False\<rparr>);
     State_Monad.return 0
   }"

definition set_light_buttons :: "'b posix_scheme \<Rightarrow> bool \<Rightarrow> light_state \<Rightarrow> ('a lights_scheme, int) state" where
  "set_light_buttons P dev st =
     (if \<not> dev then State_Monad.return (- 1)
      else do {
        modify (\<lambda>s. s\<lparr>g_lock := True\<rparr>);
        err \<leftarrow> write_int P BUTTON_FILE (color st AND 0xFF);
        modify (\<lambda>s. s\<lparr>g_lock := False\<rparr>);
        State_Monad.return err
      })"

section \<open>The device\<close>

text \<open>The function pointer \<^verbatim>\<open>set_light\<close> of an open device.\<close>

datatype light_id = BACKLIGHT | BATTERY | NOTIFICATIONS | BUTTONS | ATTENTION

fun set_light :: "'b posix_scheme \<Rightarrow> light_id \<Rightarrow> bool \<Rightarrow> light_state \<Rightarrow> ('a lights_scheme, int) state" where
  "set_light P BACKLIGHT = set_light_backlight P"
| "set_light P BATTERY = set_light_battery P"
| "set_light P NOTIFICATIONS = set_light_notifications P"
| "set_light P BUTTONS = set_light_buttons P"
| "set_light P ATTENTION = set_light_attention P"

text \<open>
  \<^verbatim>\<open>open_lights\<close> gives \<open>Inl\<close> the negated error, or the address of a new device; the
  state holds the devices that exist, each with the handler in its \<^verbatim>\<open>set_light\<close>.
  \<open>malloc\<close> picks an address that is not in use, \<open>None\<close> for no memory.
  \<^verbatim>\<open>pthread_once\<close> runs \<^verbatim>\<open>init_globals\<close>, which initialises the mutex, on the
  first call only. \<^verbatim>\<open>close_lights\<close> frees the device.
\<close>

record light_devices = lights +
  devices :: "u32 \<rightharpoonup> light_id"

definition init_globals :: "('a lights_scheme, unit) state" where
  "init_globals = modify (\<lambda>s. s\<lparr>g_lock := False\<rparr>)"

definition open_lights :: "((u32 \<rightharpoonup> light_id) \<Rightarrow> u32 option) \<Rightarrow> string \<Rightarrow> ('a light_devices_scheme, int + u32) state" where
  "open_lights malloc name =
     (case (if ''backlight'' = name then Some BACKLIGHT
            else if ''battery'' = name then Some BATTERY
            else if ''notifications'' = name then Some NOTIFICATIONS
            else if ''buttons'' = name then Some BUTTONS
            else if ''attention'' = name then Some ATTENTION
            else None) of
        None \<Rightarrow> State_Monad.return (Inl (- EINVAL))
      | Some light \<Rightarrow> do {
          started \<leftarrow> gets g_init;
          whenM (\<not> started) (do { modify (\<lambda>s. s\<lparr>g_init := True\<rparr>); init_globals });
          devs \<leftarrow> gets devices;
          (case malloc devs of
             None \<Rightarrow> State_Monad.return (Inl (- ENOMEM))
           | Some dev \<Rightarrow> do {
               modify (\<lambda>s. s\<lparr>devices := (devices s)(dev \<mapsto> light)\<rparr>);
               State_Monad.return (Inr dev)
             })
        })"

definition close_lights :: "u32 \<Rightarrow> ('a light_devices_scheme, int) state" where
  "close_lights dev = do {
     whenM (dev \<noteq> 0) (modify (\<lambda>s. s\<lparr>devices := (devices s)(dev := None)\<rparr>));
     State_Monad.return 0
   }"

text \<open>A device that is opened and closed leaves no device behind, and an open that fails makes none.\<close>

lemma open_close_lights:
  assumes "\<And>ds p. malloc ds = Some p \<Longrightarrow> p \<noteq> 0 \<and> ds p = None"
  shows "case result (open_lights malloc name) s of
     Inl e \<Rightarrow> (e = - EINVAL \<or> e = - ENOMEM) \<and> devices (exec (open_lights malloc name) s) = devices s
   | Inr dev \<Rightarrow> devices (exec (close_lights dev) (exec (open_lights malloc name) s)) = devices s"
  using assms [of "devices s"]
  by (auto simp: open_lights_def close_lights_def init_globals_def exec_def result_def fun_upd_idem split: option.split sum.split)

section \<open>Writing one value\<close>

definition value_text :: "s32 \<Rightarrow> string" where
  "value_text v = show_int (sint v) @ [CHR 0x0A]"

text \<open>The 20-byte buffer holds every 32-bit value with its newline and the terminator.\<close>

lemma length_value_text: "length (value_text v) \<le> 12"
  using length_show_int [OF sint_s32_range [of v]] by (simp add: value_text_def)

lemma snprintf_value_text: "snprintf 20 (value_text v) = (length (value_text v), value_text v)"
  using length_value_text [of v] by (simp add: snprintf_def)

lemmas sys_defs = sys_open_def sys_read_def sys_write_def sys_close_def sys_usleep_def sys_clock_def
  log_event_def set_errno_def

lemma write_int_unfold:
  "write_int P path v = do {
     fd \<leftarrow> sys_open P path O_RDWR;
     if 0 \<le> fd then do {
       amt \<leftarrow> sys_write P fd (value_text v);
       sys_close P fd;
       e \<leftarrow> gets errno;
       State_Monad.return (if amt = - 1 then - e else 0)
     } else do {
       modify (\<lambda>s. s\<lparr>write_warned := True\<rparr>);
       e \<leftarrow> gets errno;
       State_Monad.return (- e)
     }
   }"
  using snprintf_value_text [of v] by (simp add: write_int_def value_text_def cong: if_cong)

text \<open>On a working kernel the file is opened, written whole and closed, and the result is 0.\<close>

lemma write_int_works:
  assumes "px_works P"
  obtains fd where "0 \<le> fd" "result (write_int P p v) s = 0"
    "hist (exec (write_int P p v) s) =
       EvClose fd # EvWrite fd (value_text v) (int (length (value_text v))) # EvOpen p O_RDWR fd # hist s"
proof -
  from assms obtain fd where fd: "px_open P (hist s) p O_RDWR = Inr fd" "0 \<le> fd" by (rule px_works_openE)
  have w: "px_write P h fd bs = Inr (length bs)" for h bs using assms by (rule px_works_write)
  show thesis
    by (rule that [OF fd(2)])
      (simp_all add: exec_def result_def write_int_unfold sys_defs fd w split: option.split)
qed

text \<open>Whatever the kernel does, the lights' own state stays as it is and the history grows.\<close>

lemma write_int_frame [simp]:
  "g_init (exec (write_int P p v) s) = g_init s"
  "g_lock (exec (write_int P p v) s) = g_lock s"
  "g_notification (exec (write_int P p v) s) = g_notification s"
  "g_battery (exec (write_int P p v) s) = g_battery s"
  "g_attention (exec (write_int P p v) s) = g_attention s"
  by (simp_all add: exec_def write_int_unfold sys_defs split: sum.split option.split)

lemma write_int_grows: "\<exists>evs. hist (exec (write_int P p v) s) = evs @ hist s"
  by (simp add: exec_def write_int_unfold sys_defs split: sum.split option.split)

interpretation lw: file_writer "px_works P" "\<lambda>p v. exec (write_int P p v)" value_text hist
proof (unfold_locales, goal_cases)
  case (1 p v s)
  then show ?case by (rule write_int_works [of P p v s]) (simp add: fun_eq_iff)
next
  case (2 p v s)
  then show ?case by (rule write_int_works [of P p v s]) (simp add: fun_eq_iff)
next
  case (3 p v s)
  show ?case by (rule write_int_grows)
qed

abbreviation write_all :: "'b posix_scheme \<Rightarrow> (string \<times> s32) list \<Rightarrow> 'a lights_scheme \<Rightarrow> 'a lights_scheme" where
  "write_all P ws \<equiv> fold (\<lambda>(p, v). exec (write_int P p v)) ws"

lemma write_all_frame [simp]:
  "g_init (write_all P ws s) = g_init s"
  "g_lock (write_all P ws s) = g_lock s"
  "g_notification (write_all P ws s) = g_notification s"
  "g_battery (write_all P ws s) = g_battery s"
  "g_attention (write_all P ws s) = g_attention s"
  by (induction ws arbitrary: s) (auto split: prod.splits)

section \<open>What a light state means for the LED\<close>

text \<open>
  The contract of the LED, stated on the requested state alone: whether it blinks, the
  colour shown otherwise, and the value each of the six files gets.
\<close>

definition chan :: "nat \<Rightarrow> u32 \<Rightarrow> int" where
  "chan k c = uint c div 2 ^ k mod 256"

definition blinks :: "light_state \<Rightarrow> bool" where
  "blinks st \<longleftrightarrow> flashMode st \<noteq> LIGHT_FLASH_NONE \<and> color st \<noteq> 0 \<and>
     flashOnMS st \<noteq> 0 \<and> flashOnMS st + flashOffMS st \<noteq> 0 \<and> \<not> (0 < sint (flashOnMS st) \<and> flashOffMS st = 0)"

definition steady_color :: "light_state \<Rightarrow> u32" where
  "steady_color st =
     (if flashMode st \<noteq> LIGHT_FLASH_NONE \<and> flashOnMS st = 0 \<and> flashOffMS st \<noteq> 0 then 0 else color st)"

definition blink_value :: "light_state \<Rightarrow> nat \<Rightarrow> s32" where
  "blink_value st k = of_bool (blinks st \<and>
     (127 < chan k (color st) \<or> (\<forall>j \<in> {0, 8, 16}. chan j (color st) \<le> 127)))"

definition level_value :: "light_state \<Rightarrow> nat \<Rightarrow> s32" where
  "level_value st k = (if blinks st then 0 else word_of_int (48 * chan k (steady_color st) div 255))"

definition led_files :: "light_state \<Rightarrow> string \<rightharpoonup> s32" where
  "led_files st = [RED_BLINK_FILE \<mapsto> blink_value st 16, GREEN_BLINK_FILE \<mapsto> blink_value st 8,
     BLUE_BLINK_FILE \<mapsto> blink_value st 0, RED_LED_FILE \<mapsto> level_value st 16,
     GREEN_LED_FILE \<mapsto> level_value st 8, BLUE_LED_FILE \<mapsto> level_value st 0]"

text \<open>Attention before notification before battery.\<close>

definition shown :: "light_state \<Rightarrow> light_state \<Rightarrow> light_state \<Rightarrow> light_state" where
  "shown att notif bat =
     (if is_lit att then att else if is_lit notif then notif else bat)"

text \<open>
  The same as an order on the lights: the request that counts is that of the greatest light that
  is lit, where the battery, the least of the three, counts even if it is not.
\<close>

fun rank :: "light_id \<Rightarrow> nat" where
  "rank BACKLIGHT = 0"
| "rank BUTTONS = 1"
| "rank BATTERY = 2"
| "rank NOTIFICATIONS = 3"
| "rank ATTENTION = 4"

instantiation light_id :: linorder
begin

definition less_eq_light_id :: "light_id \<Rightarrow> light_id \<Rightarrow> bool" where
  "less_eq_light_id i j \<longleftrightarrow> rank i \<le> rank j"

definition less_light_id :: "light_id \<Rightarrow> light_id \<Rightarrow> bool" where
  "less_light_id i j \<longleftrightarrow> rank i < rank j"

instance
proof
  fix i j :: light_id
  show "i \<le> j \<Longrightarrow> j \<le> i \<Longrightarrow> i = j"
    by (cases i; cases j) (simp_all add: less_eq_light_id_def)
qed (auto simp: less_eq_light_id_def less_light_id_def)

end

definition current_request :: "(light_id \<Rightarrow> light_state) \<Rightarrow> light_state" where
  "current_request req = req (Max {i \<in> {BATTERY, NOTIFICATIONS, ATTENTION}. i = BATTERY \<or> is_lit (req i)})"

lemma current_request_shown:
  "current_request req = shown (req ATTENTION) (req NOTIFICATIONS) (req BATTERY)"
proof -
  have "{i \<in> {BATTERY, NOTIFICATIONS, ATTENTION}. i = BATTERY \<or> is_lit (req i)} =
      insert BATTERY ((if is_lit (req NOTIFICATIONS) then {NOTIFICATIONS} else {}) \<union>
        (if is_lit (req ATTENTION) then {ATTENTION} else {}))" by auto
  then show ?thesis
    by (simp add: current_request_def shown_def max_def less_eq_light_id_def)
qed

text \<open>The scaling in single precision is the integer scaling, for every byte.\<close>

lemma scale48_exact:
  assumes "0 \<le> r" "r \<le> 255"
  shows "scale48 r = 48 * r div 255"
proof (cases "r mod 85 = 0")
  case True
  with assms have "r \<in> {0, 85, 170, 255}" by auto
  moreover have "scale48 0 = 0" "scale48 85 = 16" "scale48 170 = 32" "scale48 255 = 48" by code_simp+
  ultimately show ?thesis by auto
next
  case False
  let ?a = "f32_div (f32_of_int r) 255" and ?b = "f32_mul (f32_div (f32_of_int r) 255) 48"
  have r: "f32_of_int r = of_int r" using assms by (intro f32_of_int_exact) auto
  have rr: "(0::rat) \<le> of_int r" "(of_int r :: rat) \<le> 255" using assms by simp_all
  have a: "\<bar>?a - of_int r / 255\<bar> \<le> of_int r / 255 / 2 ^ 24"
    unfolding f32_div_def r using rr by (intro f32_round_error) simp
  have a0: "0 \<le> ?a" unfolding f32_div_def r using rr by (intro f32_round_nonneg) simp
  have b: "\<bar>?b - ?a * 48\<bar> \<le> ?a * 48 / 2 ^ 24"
    unfolding f32_mul_def using a0 by (intro f32_round_error) simp
  have b0: "0 \<le> ?b" unfolding f32_mul_def using a0 by (intro f32_round_nonneg) simp
  have near: "\<bar>q - 48 * x\<bar> < 1 / 85"
    if "\<bar>p - x\<bar> \<le> x / 2 ^ 24" "\<bar>q - p * 48\<bar> \<le> p * 48 / 2 ^ 24" "0 \<le> x" "x \<le> 1" for p q x :: rat
  proof -
    note d = abs_le_D1 [OF that(1)] abs_le_D2 [OF that(1)] abs_le_D1 [OF that(2)] abs_le_D2 [OF that(2)]
    from d that(3,4) have "q < 48 * x + 1 / 85" "48 * x - 1 / 85 < q" by simp_all
    then show ?thesis unfolding abs_less_iff by simp
  qed
  have "\<bar>?b - 48 * (of_int r / 255)\<bar> < 1 / 85"
    by (rule near [OF a b]) (use rr in simp_all)
  then have near85: "\<bar>?b - of_int (16 * r) / of_int 85\<bar> < 1 / of_int 85" by simp
  have "coprime (85 :: int) 16" by code_simp
  then have frac: "(16 * r) mod 85 \<noteq> 0"
    using False by (simp add: mod_eq_0_iff_dvd coprime_dvd_mult_right_iff)
  have "\<lfloor>?b\<rfloor> = 16 * r div 85" by (rule floor_near_fraction [OF _ near85 frac]) simp
  also have "\<dots> = 48 * r div 255" using div_mult_mult1 [of 3 "16 * r" 85] by simp
  finally have fl: "\<lfloor>?b\<rfloor> = 48 * r div 255" .
  from b0 have "\<not> ?b < 0" by (simp only: not_less)
  then show ?thesis by (simp only: scale48_def f32_to_int_def if_False fl)
qed

lemma chan_range: "0 \<le> chan k c" "chan k c \<le> 255"
proof -
  have "chan k c < 256" unfolding chan_def by (rule pos_mod_bound) simp
  then show "chan k c \<le> 255" by simp
qed (simp add: chan_def)

lemma word_chan:
  "uint (drop_bit 16 c AND 0xFF) = chan 16 (c :: u32)"
  "uint (drop_bit 8 c AND 0xFF) = chan 8 c"
  "uint (c AND 0xFF) = chan 0 c"
proof -
  have m: "(0xFF :: u32) = mask 8" "(0xFF :: int) = mask 8" by (simp_all add: mask_eq_exp_minus_1)
  have "uint (w AND 0xFF) = uint w mod 256" for w :: u32
    by (simp add: m uint_and take_bit_eq_mod uint_mod flip: take_bit_eq_mask)
  then show "uint (drop_bit 16 c AND 0xFF) = chan 16 (c :: u32)" "uint (drop_bit 8 c AND 0xFF) = chan 8 c"
    "uint (c AND 0xFF) = chan 0 c"
    by (simp_all add: chan_def unsigned_drop_bit_eq drop_bit_eq_div uint_div)
qed

lemma chan_drop [simp]: "chan 0 (drop_bit 16 c) = chan 16 c" "chan 0 (drop_bit 8 c) = chan 8 c"
  by (simp_all add: chan_def unsigned_drop_bit_eq drop_bit_eq_div uint_div)

section \<open>What the LED routines write\<close>

lemma exec_usleep [simp]: "exec (sys_usleep n) s = s\<lparr>hist := EvUsleep n # hist s\<rparr>"
  by (simp add: exec_def sys_usleep_def log_event_def)

text \<open>The device is switched off: six files, in this order.\<close>

definition off_writes :: "(string \<times> s32) list" where
  "off_writes = [(RED_BLINK_FILE, 0), (GREEN_BLINK_FILE, 0), (BLUE_BLINK_FILE, 0),
     (RED_LED_FILE, 0), (GREEN_LED_FILE, 0), (BLUE_LED_FILE, 0)]"

lemma speaker_none:
  "exec (set_speaker_light_locked P True None) s = write_all P off_writes s"
  by (simp add: set_speaker_light_locked_def exec_bind off_writes_def)

text \<open>A state is shown: three files.\<close>

definition blink_writes :: "light_state \<Rightarrow> (string \<times> s32) list" where
  "blink_writes st = [(RED_BLINK_FILE, blink_value st 16), (GREEN_BLINK_FILE, blink_value st 8),
     (BLUE_BLINK_FILE, blink_value st 0)]"

definition level_writes :: "light_state \<Rightarrow> (string \<times> s32) list" where
  "level_writes st = [(RED_LED_FILE, level_value st 16), (GREEN_LED_FILE, level_value st 8),
     (BLUE_LED_FILE, level_value st 0)]"

lemma blink_value_cases:
  assumes "blinks st"
  shows "blink_value st k =
    (if chan 16 (color st) \<le> 127 \<and> chan 8 (color st) \<le> 127 \<and> chan 0 (color st) \<le> 127 then 1
     else of_bool (127 < chan k (color st)))"
  using assms by (auto simp: blink_value_def)

lemma speaker_blink:
  assumes "blinks st"
  shows "exec (set_speaker_light_locked P True (Some st)) s =
    write_all P (blink_writes st) (exec (sys_usleep 20000) s)"
proof -
  note b = assms [unfolded blinks_def]
  have v: "blink_value st 16 = of_bool (0 < (if chan 16 (color st) \<le> 127 \<and> chan 8 (color st) \<le> 127 \<and> chan 0 (color st) \<le> 127
      then 255 else if 127 < chan 16 (color st) then 255 else (0 :: int)))"
    "blink_value st 8 = of_bool (0 < (if chan 16 (color st) \<le> 127 \<and> chan 8 (color st) \<le> 127 \<and> chan 0 (color st) \<le> 127
      then 255 else if 127 < chan 8 (color st) then 255 else (0 :: int)))"
    "blink_value st 0 = of_bool (0 < (if chan 16 (color st) \<le> 127 \<and> chan 8 (color st) \<le> 127 \<and> chan 0 (color st) \<le> 127
      then 255 else if 127 < chan 0 (color st) then 255 else (0 :: int)))"
    by (simp_all add: blink_value_cases [OF assms])
  show ?thesis
    using b by (auto simp: set_speaker_light_locked_def exec_bind Let_def word_chan blink_writes_def v)
qed

lemma speaker_steady:
  assumes "\<not> blinks st"
  shows "exec (set_speaker_light_locked P True (Some st)) s = write_all P (level_writes st) s"
proof -
  have zero: "chan k 0 = 0" for k by (simp add: chan_def)
  show ?thesis
    using assms
    by (auto simp: set_speaker_light_locked_def exec_bind Let_def word_chan level_writes_def level_value_def
        scale48_exact chan_range blinks_def steady_color_def zero)
qed

lemma speaker_frame [simp]:
  "g_init (exec (set_speaker_light_locked P dev st) s) = g_init s"
  "g_lock (exec (set_speaker_light_locked P dev st) s) = g_lock s"
  "g_notification (exec (set_speaker_light_locked P dev st) s) = g_notification s"
  "g_battery (exec (set_speaker_light_locked P dev st) s) = g_battery s"
  "g_attention (exec (set_speaker_light_locked P dev st) s) = g_attention s"
proof -
  have "exec (set_speaker_light_locked P False st) s = s" by (simp add: set_speaker_light_locked_def)
  then show "g_init (exec (set_speaker_light_locked P dev st) s) = g_init s"
    "g_lock (exec (set_speaker_light_locked P dev st) s) = g_lock s"
    "g_notification (exec (set_speaker_light_locked P dev st) s) = g_notification s"
    "g_battery (exec (set_speaker_light_locked P dev st) s) = g_battery s"
    "g_attention (exec (set_speaker_light_locked P dev st) s) = g_attention s"
    by (cases dev; cases st; cases "blinks (the st)"; simp add: speaker_none speaker_blink speaker_steady)+
qed

lemma handle_exec:
  "exec (handle_speaker_battery_locked P dev) s =
     exec (set_speaker_light_locked P dev (Some (shown (g_attention s) (g_notification s) (g_battery s))))
       (exec (set_speaker_light_locked P dev None) s)"
  by (simp add: handle_speaker_battery_locked_def exec_bind shown_def)

section \<open>The LED always shows the current requests\<close>

lemma light_files_distinct [simp]:
  "RED_LED_FILE \<noteq> GREEN_LED_FILE" "RED_LED_FILE \<noteq> BLUE_LED_FILE" "GREEN_LED_FILE \<noteq> BLUE_LED_FILE"
  "RED_BLINK_FILE \<noteq> GREEN_BLINK_FILE" "RED_BLINK_FILE \<noteq> BLUE_BLINK_FILE" "GREEN_BLINK_FILE \<noteq> BLUE_BLINK_FILE"
  "GREEN_LED_FILE \<noteq> RED_LED_FILE" "BLUE_LED_FILE \<noteq> RED_LED_FILE" "BLUE_LED_FILE \<noteq> GREEN_LED_FILE"
  "GREEN_BLINK_FILE \<noteq> RED_BLINK_FILE" "BLUE_BLINK_FILE \<noteq> RED_BLINK_FILE" "BLUE_BLINK_FILE \<noteq> GREEN_BLINK_FILE"
  "RED_LED_FILE \<noteq> RED_BLINK_FILE" "RED_LED_FILE \<noteq> GREEN_BLINK_FILE" "RED_LED_FILE \<noteq> BLUE_BLINK_FILE"
  "GREEN_LED_FILE \<noteq> RED_BLINK_FILE" "GREEN_LED_FILE \<noteq> GREEN_BLINK_FILE" "GREEN_LED_FILE \<noteq> BLUE_BLINK_FILE"
  "BLUE_LED_FILE \<noteq> RED_BLINK_FILE" "BLUE_LED_FILE \<noteq> GREEN_BLINK_FILE" "BLUE_LED_FILE \<noteq> BLUE_BLINK_FILE"
  "RED_BLINK_FILE \<noteq> RED_LED_FILE" "RED_BLINK_FILE \<noteq> GREEN_LED_FILE" "RED_BLINK_FILE \<noteq> BLUE_LED_FILE"
  "GREEN_BLINK_FILE \<noteq> RED_LED_FILE" "GREEN_BLINK_FILE \<noteq> GREEN_LED_FILE" "GREEN_BLINK_FILE \<noteq> BLUE_LED_FILE"
  "BLUE_BLINK_FILE \<noteq> RED_LED_FILE" "BLUE_BLINK_FILE \<noteq> GREEN_LED_FILE" "BLUE_BLINK_FILE \<noteq> BLUE_LED_FILE"
  by (simp_all add: light_files)

text \<open>Neither the LCD nor the button file is one of the six.\<close>

lemma led_files_dom: "led_files st LCD_FILE = None" "led_files st BUTTON_FILE = None"
  by (simp_all add: led_files_def light_files)

definition led_ok :: "'a lights_scheme \<Rightarrow> bool" where
  "led_ok s \<longleftrightarrow>
     map_option value_text \<circ> led_files (shown (g_attention s) (g_notification s) (g_battery s)) \<subseteq>\<^sub>m last_written (hist s)"

lemma last_written_usleep [simp]: "last_written (EvUsleep n # h) = last_written h"
  by (simp add: fun_eq_iff)

text \<open>Off, then the three files of the shown state: the six files hold its values.\<close>

lemma speaker_shows:
  assumes "px_works P"
  shows "map_option value_text \<circ> led_files st \<subseteq>\<^sub>m
    last_written (hist (exec (set_speaker_light_locked P True (Some st)) (exec (set_speaker_light_locked P True None) s)))"
proof (cases "blinks st")
  case True
  then have "level_value st k = 0" for k by (simp add: level_value_def)
  moreover have "last_written (hist (exec (set_speaker_light_locked P True (Some st))
        (exec (set_speaker_light_locked P True None) s))) =
      (last_written (hist s) ++ map_of (rev (map (\<lambda>(p, v). (p, value_text v)) off_writes)))
        ++ map_of (rev (map (\<lambda>(p, v). (p, value_text v)) (blink_writes st)))"
    using True assms by (simp add: speaker_blink speaker_none lw.puts_last)
  ultimately show ?thesis
    by (auto simp: blink_writes_def off_writes_def led_files_def map_le_def)
next
  case False
  then have "blink_value st k = 0" for k by (simp add: blink_value_def)
  moreover have "last_written (hist (exec (set_speaker_light_locked P True (Some st))
        (exec (set_speaker_light_locked P True None) s))) =
      (last_written (hist s) ++ map_of (rev (map (\<lambda>(p, v). (p, value_text v)) off_writes)))
        ++ map_of (rev (map (\<lambda>(p, v). (p, value_text v)) (level_writes st)))"
    using False assms by (simp add: speaker_steady speaker_none lw.puts_last)
  ultimately show ?thesis
    by (auto simp: level_writes_def off_writes_def led_files_def map_le_def)
qed

lemma handle_led_ok: "px_works P \<Longrightarrow> led_ok (exec (handle_speaker_battery_locked P True) s)"
  using speaker_shows by (simp add: led_ok_def handle_exec)

lemma led_ok_frame:
  "led_ok (s\<lparr>g_lock := b\<rparr>) = led_ok s"
  by (simp add: led_ok_def)

definition led_request :: "light_id \<Rightarrow> bool" where
  "led_request i \<longleftrightarrow> i \<in> {BATTERY, NOTIFICATIONS, ATTENTION}"

lemma led_request_ok:
  "px_works P \<Longrightarrow> led_request i \<Longrightarrow> led_ok (exec (set_light P i True st) s)"
  by (cases i) (simp_all add: led_request_def set_light_battery_def set_light_notifications_def
      set_light_attention_def exec_bind led_ok_frame handle_led_ok)

lemma other_request_ok:
  fixes s :: "'a lights_scheme"
  assumes "px_works P" "\<not> led_request i" "led_ok s"
  shows "led_ok (exec (set_light P i True st) s)"
proof -
  have keep: "led_ok (exec (write_int P f v) t)" if "f \<in> {LCD_FILE, BUTTON_FILE}" "led_ok t" for f v and t :: "'a lights_scheme"
    using that assms(1) by (auto simp: led_ok_def map_le_def lw.put_last led_files_dom)
  show ?thesis
    using assms by (cases i) (auto simp: led_request_def set_light_backlight_def set_light_buttons_def exec_bind
        led_ok_frame intro!: keep)
qed

definition lights_step :: "'b posix_scheme \<Rightarrow> light_id \<times> light_state \<Rightarrow> 'a lights_scheme \<Rightarrow> 'a lights_scheme" where
  "lights_step P r s = exec (set_light P (fst r) True (snd r)) s"

interpretation led: free_machine "lights_step P" "\<lambda>s. px_works P \<longrightarrow> led_ok s"
  by unfold_locales (auto simp: lights_step_def intro: led_request_ok other_request_ok)

text \<open>The state last requested of a light, off before the first request.\<close>

definition last_request :: "light_id \<Rightarrow> (light_id \<times> light_state) list \<Rightarrow> light_state" where
  "last_request i rs = fold (\<lambda>(j, st) r. if j = i then st else r) rs zero_light"

lemma handle_frame [simp]:
  "g_notification (exec (handle_speaker_battery_locked P dev) s) = g_notification s"
  "g_battery (exec (handle_speaker_battery_locked P dev) s) = g_battery s"
  "g_attention (exec (handle_speaker_battery_locked P dev) s) = g_attention s"
  "g_init (exec (handle_speaker_battery_locked P dev) s) = g_init s"
  "g_lock (exec (handle_speaker_battery_locked P dev) s) = g_lock s"
  by (simp_all add: handle_exec)

lemma set_light_globals:
  "g_attention (exec (set_light P i dev st) s) = (if i = ATTENTION then st else g_attention s)"
  "g_notification (exec (set_light P i dev st) s) = (if i = NOTIFICATIONS then st else g_notification s)"
  "g_battery (exec (set_light P i dev st) s) = (if i = BATTERY then st else g_battery s)"
  by (cases i; simp add: set_light_backlight_def set_light_battery_def set_light_notifications_def
      set_light_attention_def set_light_buttons_def Let_def exec_bind)+

lemma run_globals:
  "g_attention (fold (lights_step P) rs lights_start) = last_request ATTENTION rs"
  "g_notification (fold (lights_step P) rs lights_start) = last_request NOTIFICATIONS rs"
  "g_battery (fold (lights_step P) rs lights_start) = last_request BATTERY rs"
  by (induction rs rule: rev_induct)
    (auto simp: last_request_def lights_start_def lights_step_def set_light_globals split: prod.splits)

section \<open>Brightness\<close>

lemma chan_bits: "chan k c = take_bit 8 (drop_bit k (uint c))"
  by (simp add: chan_def take_bit_eq_mod drop_bit_eq_div)

lemma uint_mask24: "uint (c AND 0x00ffffff :: u32) = take_bit 24 (uint c)"
proof -
  have m: "(0x00ffffff :: u32) = mask 24" by (simp add: mask_eq_exp_minus_1)
  show ?thesis unfolding m take_bit_eq_mask [symmetric] by (simp add: unsigned_take_bit_eq)
qed

lemma chan_mask24:
  "chan 16 (c AND 0x00ffffff) = chan 16 c" "chan 8 (c AND 0x00ffffff) = chan 8 c"
  "chan 0 (c AND 0x00ffffff) = chan 0 c"
  by (simp_all add: chan_bits uint_mask24 drop_bit_take_bit)

section \<open>Properties\<close>

text \<open>
  C1. The LED always shows the current requests. After any sequence of requests to the five
  lights on a working kernel, once the LED was asked for at all, each of its six files holds
  the value that the request of the greatest lit light (attention over notification over
  battery) calls for, whatever was shown before and in whatever order the requests came.
\<close>

theorem led_shows_current_requests:
  assumes "px_works P" and "\<exists>r \<in> set rs. led_request (fst r)"
    and "led_files (current_request (\<lambda>i. last_request i rs)) f = Some v"
  shows "last_written (hist (fold (lights_step P) rs lights_start)) f = Some (value_text v)"
proof -
  obtain as r bs where rs: "rs = as @ r # bs" and r: "led_request (fst r)"
    using assms(2) by (metis split_list)
  have "led_ok (lights_step P r (fold (lights_step P) as lights_start))"
    using assms(1) r by (simp add: lights_step_def led_request_ok)
  with assms(1) have "led_ok (fold (lights_step P) rs lights_start)"
    using led.run_inv [of P _ bs] by (simp add: rs)
  with assms(3) show ?thesis by (force simp: led_ok_def run_globals map_le_def dom_def current_request_shown)
qed

definition amber :: light_state where
  "amber = \<lparr>color = 0xFFFF8000, flashMode = 1, flashOnMS = 500, flashOffMS = 500\<rparr>"

theorem led_shows_current_requests_witness:
  "last_written (hist (fold (lights_step (demo_posix 0)) [(BATTERY, amber), (BACKLIGHT, amber)] lights_start)) GREEN_BLINK_FILE
     = Some (value_text 1)"
proof (rule led_shows_current_requests [where rs = "[(BATTERY, amber), (BACKLIGHT, amber)]", OF demo_posix_works])
  show "\<exists>r \<in> set [(BATTERY, amber), (BACKLIGHT, amber)]. led_request (fst r)"
    by (simp add: led_request_def)
  show "led_files (current_request (\<lambda>i. last_request i [(BATTERY, amber), (BACKLIGHT, amber)])) GREEN_BLINK_FILE = Some 1"
    by (simp add: current_request_shown last_request_def shown_def is_lit_def zero_light_def led_files_def blink_value_def blinks_def
        amber_def LIGHT_FLASH_NONE_def chan_def)
qed

text \<open>
  C27. The level files get the channel on a scale of 0 to 48: the single-precision
  computation of the code is exactly the integer \<open>48 * c div 255\<close> for every byte, so it is
  monotone, 0 only reaches 0 and 255 reaches 48.
\<close>

theorem level_scaling_exact:
  "c \<in> {0..255} \<Longrightarrow> scale48 c = 48 * c div 255 \<and> 0 \<le> scale48 c \<and> scale48 c \<le> 48"
  using zdiv_mono1 [of "48 * c" "48 * 255" 255] pos_imp_zdiv_nonneg_iff [of 255 "48 * c"]
  by (simp add: scale48_exact del: div_mult_mult1_if)

theorem level_scaling_exact_witness: "scale48 170 = 32"
  using level_scaling_exact [of 170] by simp

text \<open>Reading a text that \<^verbatim>\<open>write_int\<close> writes.\<close>

lemma read_int_of_text:
  assumes "px_open P (hist s) path O_RDONLY = Inr fd" and "0 \<le> fd"
    and "px_read P (EvOpen path O_RDONLY fd # hist s) fd 12 = Inr (value_text v)"
  shows "result (read_int P path) s = Inr (Some (sint v))"
proof -
  have cut: "(value_text v)[nat (int (length (value_text v)) - 1) := CHR 0x00] = show_int (sint v) @ [CHR 0x00]"
    by (simp add: value_text_def list_update_append nat_add_distrib)
  have "cstr (show_int (sint v) @ [CHR 0x00]) = show_int (sint v)"
    using show_int_no_nul [of "sint v"] unfolding cstr_def by (subst takeWhile_append2) auto
  moreover have "strtol10 (show_int (sint v)) = sint v"
    using strtol10_show_int [OF sint_s32_range, of "[]" v] by simp
  moreover have "0 < length (value_text v)" by (simp add: value_text_def)
  ultimately show ?thesis
    using assms cut
    by (simp add: result_def read_int_def read_string_def sys_defs Let_def split: option.split)
qed

text \<open>
  A kernel whose files are device nodes: the first \<^verbatim>\<open>read\<close> after an \<^verbatim>\<open>open\<close>
  gives the text last written to the file, as far as there is room for it.
\<close>

definition reads_back :: "'b posix_scheme \<Rightarrow> bool" where
  "reads_back P \<longleftrightarrow> (\<forall>h p f fd n txt. 0 \<le> fd \<longrightarrow> last_written h p = Some txt \<longrightarrow>
     px_read P (EvOpen p f fd # h) fd n = Inr (take n txt))"

text \<open>
  C26. A value written by \<^verbatim>\<open>write_int\<close> is read back by \<^verbatim>\<open>read_int\<close>: on a
  kernel where opening and writing work and files are device nodes that read back what was
  last written to them, \<^verbatim>\<open>write_int\<close> returns 0 for every 32-bit value and
  \<^verbatim>\<open>read_int\<close> then gives that value, whatever is written to other files in between.
  (The 20-byte buffer holds the whole text, the 12 bytes \<^verbatim>\<open>read_string\<close> asks for
  contain it, and overwriting its last byte removes only the newline.)
\<close>

theorem read_int_after_write_int:
  assumes "px_works P" "reads_back P" "path \<notin> fst ` set ws"
  shows "result (write_int P path v) s = 0 \<and>
    result (read_int P path) (write_all P ws (exec (write_int P path v) s)) = Inr (Some (sint v))"
proof
  show "result (write_int P path v) s = 0" by (rule write_int_works [OF assms(1)])
  let ?t = "write_all P ws (exec (write_int P path v) s)"
  have "map_of (rev (map (\<lambda>(p, v). (p, value_text v)) ws)) path = None"
    using assms(3) by (force simp: map_of_eq_None_iff)
  then have last: "last_written (hist ?t) path = Some (value_text v)"
    using lw.put_last [OF assms(1), of path v s] by (simp add: lw.puts_last [OF assms(1)] map_add_def)
  obtain fd where fd: "px_open P (hist ?t) path O_RDONLY = Inr fd" "0 \<le> fd" using assms(1) by (rule px_works_openE)
  have "px_read P (EvOpen path O_RDONLY fd # hist ?t) fd 12 = Inr (take 12 (value_text v))"
    using assms(2) fd(2) last unfolding reads_back_def by blast
  also have "take 12 (value_text v) = value_text v" using length_value_text by simp
  finally show "result (read_int P path) ?t = Inr (Some (sint v))" by (rule read_int_of_text [OF fd])
qed

text \<open>
  C28. The LCD brightness of a colour is the weighted mean of its channels, rounded down: it
  is a byte and lies between the darkest and the brightest channel, so a grey keeps its level.
\<close>

theorem rgb_to_brightness_mean:
  "sint (rgb_to_brightness st) =
     (77 * chan 16 (color st) + 150 * chan 8 (color st) + 29 * chan 0 (color st)) div 256 \<and>
   Min {chan 16 (color st), chan 8 (color st), chan 0 (color st)} \<le> sint (rgb_to_brightness st) \<and>
   sint (rgb_to_brightness st) \<le> Max {chan 16 (color st), chan 8 (color st), chan 0 (color st)}"
proof -
  let ?c = "color st AND 0x00ffffff"
  let ?r = "chan 16 (color st)" and ?g = "chan 8 (color st)" and ?b = "chan 0 (color st)"
  have c: "uint ?c < 2 ^ 24" by (simp add: uint_mask24 take_bit_eq_mod)
  let ?sum = "77 * (drop_bit 16 ?c AND 0xFF) + 150 * (drop_bit 8 ?c AND 0xFF) + 29 * (?c AND 0xFF) :: u32"
  have rng: "0 \<le> ?r" "?r \<le> 255" "0 \<le> ?g" "?g \<le> 255" "0 \<le> ?b" "?b \<le> 255" by (rule chan_range)+
  have parts: "uint (drop_bit 16 ?c AND 0xFF) = ?r" "uint (drop_bit 8 ?c AND 0xFF) = ?g" "uint (?c AND 0xFF) = ?b"
    by (simp_all only: word_chan chan_drop chan_mask24)
  have weigh: "uint (77 * x + 150 * y + 29 * z) = 77 * uint x + 150 * uint y + 29 * uint z"
    if "uint x \<le> 255" "uint y \<le> 255" "uint z \<le> 255" for x y z :: u32
    using that uint_ge_0 [of x] uint_ge_0 [of y] uint_ge_0 [of z] by (simp add: uint_word_ariths)
  have sum: "uint ?sum = 77 * ?r + 150 * ?g + 29 * ?b"
    using rng by (subst weigh) (simp_all only: parts)
  have b: "rgb_to_brightness st = drop_bit 8 ?sum"
    using c rng sum unfolding rgb_to_brightness_def Let_def
    by (subst (1 2 3) signed_drop_bit_small) simp_all
  have "uint (drop_bit 8 ?sum) = (77 * ?r + 150 * ?g + 29 * ?b) div 256"
    by (simp only: uint_drop_bit_div sum) simp
  then have "sint (drop_bit 8 ?sum) = (77 * ?r + 150 * ?g + 29 * ?b) div 256"
    using rng by (subst sint_small) simp_all
  then have eq: "sint (rgb_to_brightness st) = (77 * ?r + 150 * ?g + 29 * ?b) div 256"
    by (simp add: b)
  let ?M = "Max {?r, ?g, ?b}" and ?m = "Min {?r, ?g, ?b}"
  have "?r \<le> ?M" "?g \<le> ?M" "?b \<le> ?M" "?m \<le> ?r" "?m \<le> ?g" "?m \<le> ?b"
    by (simp_all add: le_max_iff_disj min_le_iff_disj)
  then have "77 * ?r + 150 * ?g + 29 * ?b \<le> ?M * 256" "?m * 256 \<le> 77 * ?r + 150 * ?g + 29 * ?b"
    by linarith+
  from this [THEN zdiv_mono1, of 256]
  have "sint (rgb_to_brightness st) \<le> ?M" "?m \<le> sint (rgb_to_brightness st)"
    by (simp_all only: eq) simp_all
  with eq show ?thesis by blast
qed
text \<open>
  An empty read makes \<^verbatim>\<open>read_string\<close> store its terminator before the buffer.
\<close>

theorem read_string_empty_stores_outside:
  assumes "px_open P (hist s) path O_RDONLY = Inr fd" and "0 \<le> fd"
    and "px_read P (EvOpen path O_RDONLY fd # hist s) fd 12 = Inr []"
  shows "result (read_string P path) s = Inl (- 1)"
  using assms by (simp add: result_def read_string_def sys_defs Let_def split: option.split)


theorem read_string_empty_stores_outside_witness:
  "result (read_string (demo_posix 0) LCD_FILE) lights_start = Inl (- 1)"
  by (rule read_string_empty_stores_outside [where fd = 3]) (simp_all add: demo_posix_def lights_start_def)

definition node_posix :: posix where
  "node_posix = (demo_posix 0)\<lparr>px_read := \<lambda>h fd n. case fd_path h fd of None \<Rightarrow> Inr []
     | Some p \<Rightarrow> (case last_written h p of None \<Rightarrow> Inr [] | Some txt \<Rightarrow> Inr (take n txt))\<rparr>"

lemma node_posix_laws: "px_works node_posix" "reads_back node_posix"
  by (simp_all add: px_works_def reads_back_def node_posix_def demo_posix_def)

theorem read_int_after_write_int_witness:
  "result (read_int node_posix LCD_FILE) (exec (write_int node_posix BUTTON_FILE 1)
     (exec (write_int node_posix LCD_FILE (- 2147483648)) lights_start)) = Inr (Some (- 2147483648))"
proof -
  have "result (read_int node_posix LCD_FILE) (write_all node_posix [(BUTTON_FILE, 1)]
     (exec (write_int node_posix LCD_FILE (- 2147483648)) lights_start)) = Inr (Some (sint (- 2147483648 :: s32)))"
    by (rule read_int_after_write_int [OF node_posix_laws, THEN conjunct2]) (simp add: LCD_FILE_def BUTTON_FILE_def)
  then show ?thesis by simp
qed

text \<open>
  C29. A request is recorded and the mutex released whatever the kernel does: with any
  failure of any system call, or with no device at all, an LED request still returns 0,
  becomes the light's current state and changes no other light.
\<close>

theorem led_request_recorded:
  assumes "led_request i"
  shows "result (set_light P i dev st) s = 0 \<and> \<not> g_lock (exec (set_light P i dev st) s) \<and>
    g_attention (exec (set_light P i dev st) s) = (if i = ATTENTION then st else g_attention s) \<and>
    g_notification (exec (set_light P i dev st) s) = (if i = NOTIFICATIONS then st else g_notification s) \<and>
    g_battery (exec (set_light P i dev st) s) = (if i = BATTERY then st else g_battery s)"
proof -
  have "result (set_light P i dev st) s = 0" "\<not> g_lock (exec (set_light P i dev st) s)"
    using assms by (cases i; simp add: led_request_def set_light_battery_def set_light_notifications_def
        set_light_attention_def result_bind exec_bind)+
  then show ?thesis by (simp add: set_light_globals del: set_light.simps)
qed

theorem led_request_recorded_witness:
  "g_battery (exec (set_light (demo_posix 0) BATTERY False amber) lights_start) = amber"
  using led_request_recorded [of BATTERY "demo_posix 0" False amber lights_start] by (simp add: led_request_def)

text \<open>
  What \<^verbatim>\<open>write_int\<close> reports: the error of a failed \<^verbatim>\<open>open\<close>, the
  error of a failed \<^verbatim>\<open>write\<close> as long as \<^verbatim>\<open>close\<close> succeeds, and 0 for any
  other write, a partial one included. After a failed \<^verbatim>\<open>close\<close> the error reported
  for a failed write is the one of \<^verbatim>\<open>close\<close>.
\<close>

theorem write_int_result:
  "result (write_int P path v) s =
    (case px_open P (hist s) path O_RDWR of
       Inl e \<Rightarrow> - e
     | Inr fd \<Rightarrow>
         if fd < 0 then - errno s
         else (let h = EvOpen path O_RDWR fd # hist s in
           case px_write P h fd (value_text v) of
             Inr n \<Rightarrow> 0
           | Inl e \<Rightarrow>
               (case px_close P (EvWrite fd (value_text v) (- 1) # h) fd of Some e' \<Rightarrow> - e' | None \<Rightarrow> - e)))"
  by (auto simp: result_def write_int_unfold sys_defs Let_def split: sum.split option.split)

text \<open>
  \<^verbatim>\<open>is_lit\<close> ignores the alpha byte, the blink test does not: a battery request in
  opaque black with a flash makes the LED blink white.
\<close>

theorem opaque_black_blinks_white:
  assumes "px_works P" and "\<not> is_lit (g_attention s)" and "\<not> is_lit (g_notification s)"
    and "flashMode st \<noteq> LIGHT_FLASH_NONE" and "flashOnMS st = 500" and "flashOffMS st = 500"
    and "color st = 0xFF000000"
  shows "\<not> is_lit st \<and>
    (\<forall>f \<in> {RED_BLINK_FILE, GREEN_BLINK_FILE, BLUE_BLINK_FILE}.
       last_written (hist (exec (set_light P BATTERY True st) s)) f = Some (value_text 1))"
proof
  show "\<not> is_lit st" using assms(7) by (simp add: is_lit_def)
  have "blinks st" using assms by (simp add: blinks_def)
  moreover have "chan j (color st) \<le> 127" if "j \<in> {0, 8, 16}" for j
    using that assms(7) by (auto simp: chan_def)
  ultimately have one: "blink_value st k = 1" for k by (simp add: blink_value_def)
  have "led_ok (exec (set_light P BATTERY True st) s)"
    using assms(1) by (intro led_request_ok) (simp_all add: led_request_def)
  then have "map_option value_text \<circ> led_files st \<subseteq>\<^sub>m last_written (hist (exec (set_light P BATTERY True st) s))"
    using assms(2,3) by (simp add: led_ok_def set_light_globals shown_def del: set_light.simps)
  then show "\<forall>f \<in> {RED_BLINK_FILE, GREEN_BLINK_FILE, BLUE_BLINK_FILE}.
       last_written (hist (exec (set_light P BATTERY True st) s)) f = Some (value_text 1)"
    by (auto simp: map_le_def led_files_def one)
qed

theorem opaque_black_blinks_white_witness:
  "last_written (hist (exec (set_light (demo_posix 0) BATTERY True
      \<lparr>color = 0xFF000000, flashMode = 1, flashOnMS = 500, flashOffMS = 500\<rparr>) lights_start)) RED_BLINK_FILE
     = Some (value_text 1)"
  using opaque_black_blinks_white [OF demo_posix_works, of lights_start
      "\<lparr>color = 0xFF000000, flashMode = 1, flashOnMS = 500, flashOffMS = 500\<rparr>" 0]
  by (simp add: lights_start_def is_lit_def zero_light_def LIGHT_FLASH_NONE_def)

end
