(* ===== verification/PowerHal.thy ===== *)
theory PowerHal
  imports Posix Float32
begin

text \<open>
  The power module, \<^verbatim>\<open>libpower/power.c\<close>: touch and vsync hints drive the touch-boost
  trigger of the interactive cpufreq governor. State: the three flags of
  \<^verbatim>\<open>struct intel_power_module\<close> and the function's static variables.
\<close>

section \<open>Data\<close>

datatype power_hint = POWER_HINT_VSYNC | POWER_HINT_INTERACTION | POWER_HINT_OTHER int

record power = sys +
  touchboost_disable :: int
  timer_set :: int
  vsync_boost :: int
  curr_time :: s32
  prev_time :: s32
  vsync_time :: s32
  vsync_count :: int
  consecutive_touch_int :: s32

definition power_start :: power where
  "power_start = \<lparr>hist = [], errno = 0, touchboost_disable = 0, timer_set = 0, vsync_boost = 0,
     curr_time = 0, prev_time = 0, vsync_time = 0, vsync_count = 0, consecutive_touch_int = 0\<rparr>"

definition TOUCHBOOST_PULSE_SYSFS :: string where
  "TOUCHBOOST_PULSE_SYSFS = ''/sys/devices/system/cpu/cpufreq/interactive/touchboostpulse''"
definition TOUCHBOOST_SYSFS :: string where
  "TOUCHBOOST_SYSFS = ''/sys/devices/system/cpu/cpufreq/interactive/touchboost_freq''"
definition TIMER_RATE_SYSFS :: string where
  "TIMER_RATE_SYSFS = ''/sys/devices/system/cpu/cpufreq/interactive/timer_rate''"

text \<open>The build file sets \<^verbatim>\<open>INTEL_TOUCHBOOST_FREQ\<close>.\<close>

definition INTEL_TOUCHBOOST_FREQ :: string where "INTEL_TOUCHBOOST_FREQ = ''2240000''"

definition SHORT_TOUCH_TIME :: rat where "SHORT_TOUCH_TIME = 20"
definition LONG_TOUCH_TIME :: rat where "LONG_TOUCH_TIME = 100"
definition VSYNC_BOOST_COUNT :: int where "VSYNC_BOOST_COUNT = 4"
definition VSYNC_TOUCH_TIME :: rat where "VSYNC_TOUCH_TIME = 30"
definition CLOCKS_PER_SEC :: rat where "CLOCKS_PER_SEC = 1000000"

section \<open>Operations\<close>

definition sysfs_write :: "'b posix_scheme \<Rightarrow> string \<Rightarrow> string \<Rightarrow> ('a sys_scheme, unit) state" where
  "sysfs_write P path s = do {
     fd \<leftarrow> sys_open P path O_WRONLY;
     if fd < 0 then State_Monad.return ()
     else do {
       len \<leftarrow> sys_write P fd s;
       sys_close P fd
     }
   }"

text \<open>
  \<^verbatim>\<open>sysfs_read\<close>: the result and the text left in the buffer, which the function
  terminates at the number of bytes read.
\<close>

definition sysfs_read :: "'b posix_scheme \<Rightarrow> string \<Rightarrow> u32 \<Rightarrow> ('a sys_scheme, int \<times> string) state" where
  "sysfs_read P path num_bytes = do {
     fd \<leftarrow> sys_open P path O_RDONLY;
     if fd < 0 then State_Monad.return (- 1, [])
     else do {
       r \<leftarrow> sys_read P fd (unat (num_bytes - 1));
       sys_close P fd;
       State_Monad.return (case r of None \<Rightarrow> (- 1, []) | Some bs \<Rightarrow> (0, bs @ [CHR 0x00]))
     }
   }"

definition intel_power_init :: "'b posix_scheme \<Rightarrow> ('a power_scheme, unit) state" where
  "intel_power_init P = sysfs_write P TOUCHBOOST_SYSFS INTEL_TOUCHBOOST_FREQ"

definition intel_power_set_interactive :: "int \<Rightarrow> ('a power_scheme, unit) state" where
  "intel_power_set_interactive on = State_Monad.return ()"

text \<open>\<^verbatim>\<open>(((float)a - (float)b) / CLOCKS_PER_SEC) * 1000\<close>, in milliseconds.\<close>

definition elapsed_ms :: "s32 \<Rightarrow> s32 \<Rightarrow> rat" where
  "elapsed_ms a b =
     f32_mul (f32_div (f32_sub (f32_of_int (sint a)) (f32_of_int (sint b))) CLOCKS_PER_SEC) 1000"

text \<open>
  The three updates an interaction makes to the flags, in the code's order: the interval is
  classified, the fifth short interval stops the pulses, the sixteenth marks a scroll.
\<close>

definition classify_interval :: "rat \<Rightarrow> 'a power_scheme \<Rightarrow> 'a power_scheme" where
  "classify_interval diff s =
     (if diff < SHORT_TOUCH_TIME then s\<lparr>consecutive_touch_int := consecutive_touch_int s + 1\<rparr>
      else if LONG_TOUCH_TIME < diff then
        s\<lparr>vsync_boost := 0, timer_set := 0, touchboost_disable := 0, vsync_count := 0, consecutive_touch_int := 0\<rparr>
      else s)"

definition simple_touch :: "rat \<Rightarrow> 'a power_scheme \<Rightarrow> 'a power_scheme" where
  "simple_touch diff s =
     (if diff < SHORT_TOUCH_TIME \<and> touchboost_disable s = 0 \<and> 4 < sint (consecutive_touch_int s)
      then s\<lparr>touchboost_disable := 1\<rparr> else s)"

definition scrolling :: "'a power_scheme \<Rightarrow> 'a power_scheme" where
  "scrolling s =
     (if touchboost_disable s = 1 \<and> 15 < sint (consecutive_touch_int s) \<and> timer_set s = 0
      then s\<lparr>timer_set := 1\<rparr> else s)"

definition interaction_hint :: "'b posix_scheme \<Rightarrow> ('a power_scheme, unit) state" where
  "interaction_hint P = do {
     now \<leftarrow> sys_clock P;
     modify (\<lambda>s. s\<lparr>curr_time := now\<rparr>);
     diff \<leftarrow> gets (\<lambda>s. elapsed_ms (curr_time s) (prev_time s));
     modify (\<lambda>s. s\<lparr>prev_time := curr_time s\<rparr>);
     modify (classify_interval diff);
     modify (simple_touch diff);
     modify scrolling;
     disabled \<leftarrow> gets touchboost_disable;
     (if disabled = 0 then sysfs_write P TOUCHBOOST_PULSE_SYSFS ''1'' else State_Monad.return ())
   }"

definition vsync_hint :: "'b posix_scheme \<Rightarrow> int \<Rightarrow> ('a power_scheme, unit) state" where
  "vsync_hint P data = do {
     disabled \<leftarrow> gets touchboost_disable;
     (if disabled = 1 then do {
        now \<leftarrow> sys_clock P;
        modify (\<lambda>s. s\<lparr>vsync_time := now\<rparr>);
        diff \<leftarrow> gets (\<lambda>s. elapsed_ms (vsync_time s) (curr_time s));
        (if VSYNC_TOUCH_TIME < diff then
           modify (\<lambda>s. s\<lparr>timer_set := 0, vsync_boost := 1, touchboost_disable := 0,
                         vsync_count := VSYNC_BOOST_COUNT\<rparr>)
         else State_Monad.return ())
      } else State_Monad.return ());
     boost \<leftarrow> gets vsync_boost;
     (if boost \<noteq> 0 then do {
        n \<leftarrow> gets vsync_count;
        (if data = 1 \<and> 0 < n then do {
           sysfs_write P TOUCHBOOST_PULSE_SYSFS ''1'';
           modify (\<lambda>s. s\<lparr>vsync_count := vsync_count s - 1\<rparr>);
           modify (\<lambda>s. if vsync_count s = 0 then s\<lparr>vsync_boost := 0\<rparr> else s)
         } else State_Monad.return ())
      } else State_Monad.return ())
   }"

definition intel_power_hint :: "'b posix_scheme \<Rightarrow> power_hint \<Rightarrow> int \<Rightarrow> ('a power_scheme, unit) state" where
  "intel_power_hint P hint data =
     (case hint of
        POWER_HINT_INTERACTION \<Rightarrow> interaction_hint P
      | POWER_HINT_VSYNC \<Rightarrow> vsync_hint P data
      | POWER_HINT_OTHER n \<Rightarrow> State_Monad.return ())"

section \<open>One write to the governor\<close>

lemmas power_sys_defs = sys_open_def sys_read_def sys_write_def sys_close_def sys_clock_def log_event_def set_errno_def

lemma sysfs_write_works:
  assumes "px_works P"
  obtains fd where "0 \<le> fd"
    "hist (exec (sysfs_write P p v) s) = EvClose fd # EvWrite fd v (int (length v)) # EvOpen p O_WRONLY fd # hist s"
proof -
  from assms obtain fd where fd: "px_open P (hist s) p O_WRONLY = Inr fd" "0 \<le> fd" by (rule px_works_openE)
  have w: "px_write P h fd bs = Inr (length bs)" for h bs using assms by (rule px_works_write)
  show thesis
    by (rule that [OF fd(2)]) (use fd in \<open>simp add: exec_def sysfs_write_def power_sys_defs w split: option.split\<close>)
qed

lemma sysfs_write_grows: "\<exists>evs. hist (exec (sysfs_write P p v) s) = evs @ hist s"
  by (simp add: exec_def sysfs_write_def power_sys_defs split: sum.split option.split)

interpretation pw: file_writer "px_works P" "\<lambda>p v. exec (sysfs_write P p v)" "\<lambda>v. v" hist
proof (unfold_locales, goal_cases)
  case (1 p v s)
  then show ?case by (rule sysfs_write_works [of P p v s]) (simp add: fun_eq_iff)
next
  case (2 p v s)
  then show ?case by (rule sysfs_write_works [of P p v s]) (simp add: fun_eq_iff)
next
  case (3 p v s)
  show ?case by (rule sysfs_write_grows)
qed

text \<open>The module's own state is not touched, for any kernel.\<close>

lemma sysfs_write_frame [simp]:
  "touchboost_disable (exec (sysfs_write P p v) s) = touchboost_disable s"
  "timer_set (exec (sysfs_write P p v) s) = timer_set s"
  "vsync_boost (exec (sysfs_write P p v) s) = vsync_boost s"
  "vsync_count (exec (sysfs_write P p v) s) = vsync_count s"
  "consecutive_touch_int (exec (sysfs_write P p v) s) = consecutive_touch_int s"
  "curr_time (exec (sysfs_write P p v) s) = curr_time s"
  "prev_time (exec (sysfs_write P p v) s) = prev_time s"
  by (simp_all add: exec_def sysfs_write_def power_sys_defs split: sum.split option.split)

section \<open>The hints as state transformers\<close>

definition touch_update :: "rat \<Rightarrow> 'a power_scheme \<Rightarrow> 'a power_scheme" where
  "touch_update diff s = scrolling (simple_touch diff (classify_interval diff s))"

lemma exec_clock [simp]: "exec (sys_clock P) s = s\<lparr>hist := EvClock (px_clock P (hist s)) # hist s\<rparr>"
  "result (sys_clock P) s = px_clock P (hist s)"
  by (simp_all add: exec_def result_def sys_clock_def log_event_def)

lemma interaction_exec:
  "exec (interaction_hint P) s =
     (let now = px_clock P (hist s);
          t = touch_update (elapsed_ms now (prev_time s)) (s\<lparr>hist := EvClock now # hist s, curr_time := now, prev_time := now\<rparr>)
      in if touchboost_disable t = 0 then exec (sysfs_write P TOUCHBOOST_PULSE_SYSFS ''1'') t else t)"
  by (simp add: interaction_hint_def exec_bind touch_update_def Let_def)

text \<open>The first half of a vsync hint: the end of a scroll starts a boost.\<close>

definition vsync_trigger :: "'b posix_scheme \<Rightarrow> 'a power_scheme \<Rightarrow> 'a power_scheme" where
  "vsync_trigger P s =
     (if touchboost_disable s = 1 then
        let now = px_clock P (hist s); t = s\<lparr>hist := EvClock now # hist s, vsync_time := now\<rparr> in
        if VSYNC_TOUCH_TIME < elapsed_ms now (curr_time s)
        then t\<lparr>timer_set := 0, vsync_boost := 1, touchboost_disable := 0, vsync_count := VSYNC_BOOST_COUNT\<rparr> else t
      else s)"

definition vsync_pulse :: "'b posix_scheme \<Rightarrow> int \<Rightarrow> 'a power_scheme \<Rightarrow> 'a power_scheme" where
  "vsync_pulse P data s =
     (if vsync_boost s \<noteq> 0 \<and> data = 1 \<and> 0 < vsync_count s then
        let t = exec (sysfs_write P TOUCHBOOST_PULSE_SYSFS ''1'') s; u = t\<lparr>vsync_count := vsync_count t - 1\<rparr>
        in if vsync_count u = 0 then u\<lparr>vsync_boost := 0\<rparr> else u
      else s)"

lemma vsync_exec: "exec (vsync_hint P data) s = vsync_pulse P data (vsync_trigger P s)"
  by (simp add: vsync_hint_def exec_bind vsync_trigger_def vsync_pulse_def Let_def)

definition power_step :: "'b posix_scheme \<Rightarrow> power_hint \<times> int \<Rightarrow> 'a power_scheme \<Rightarrow> 'a power_scheme" where
  "power_step P h s = exec (intel_power_hint P (fst h) (snd h)) s"

section \<open>The invariant of the flags\<close>

definition power_inv :: "'a power_scheme \<Rightarrow> bool" where
  "power_inv s \<longleftrightarrow> touchboost_disable s \<in> {0, 1} \<and> timer_set s \<in> {0, 1} \<and> vsync_boost s \<in> {0, 1} \<and>
     0 \<le> vsync_count s \<and> vsync_count s \<le> VSYNC_BOOST_COUNT \<and>
     (vsync_boost s = 1 \<longleftrightarrow> 0 < vsync_count s) \<and>
     (timer_set s = 1 \<longrightarrow> touchboost_disable s = 1)"

lemma power_inv_write: "power_inv (exec (sysfs_write P p v) s) = power_inv s"
  by (simp add: power_inv_def)

lemma touch_update_inv: "power_inv s \<Longrightarrow> power_inv (touch_update d s)"
proof -
  assume "power_inv s"
  then have "power_inv (classify_interval d s)"
    by (auto simp: power_inv_def classify_interval_def VSYNC_BOOST_COUNT_def)
  then have "power_inv (simple_touch d (classify_interval d s))"
    by (auto simp: power_inv_def simple_touch_def)
  then show ?thesis by (auto simp: power_inv_def touch_update_def scrolling_def)
qed

lemma vsync_trigger_inv: "power_inv s \<Longrightarrow> power_inv (vsync_trigger P s)"
  by (auto simp: power_inv_def vsync_trigger_def Let_def VSYNC_BOOST_COUNT_def)

lemma power_inv_step:
  fixes s :: "'a power_scheme"
  shows "power_inv s \<Longrightarrow> power_inv (power_step P h s)"
proof (cases "fst h")
  case POWER_HINT_VSYNC
  assume inv: "power_inv s"
  have trig: "power_inv (vsync_trigger P s)"
    using inv by (rule vsync_trigger_inv)
  have "power_inv (vsync_pulse P d t)" if "power_inv t" for d and t :: "'a power_scheme"
    using that by (auto simp: power_inv_def vsync_pulse_def Let_def)
  with trig POWER_HINT_VSYNC show ?thesis by (simp add: power_step_def intel_power_hint_def vsync_exec)
next
  case POWER_HINT_INTERACTION
  assume inv: "power_inv s"
  then have "power_inv (s\<lparr>hist := h, curr_time := a, prev_time := b\<rparr>)" for h a b
    by (auto simp: power_inv_def)
  with POWER_HINT_INTERACTION show ?thesis
    by (simp add: power_step_def intel_power_hint_def interaction_exec Let_def power_inv_write touch_update_inv)
qed (simp add: power_step_def intel_power_hint_def)

interpretation ph: free_machine "power_step P" power_inv
  by unfold_locales (rule power_inv_step)

section \<open>Intervals\<close>

lemma elapsed_mono:
  fixes d e :: int
  shows "d \<le> e \<Longrightarrow> f32_mul (f32_div (of_int d) CLOCKS_PER_SEC) 1000 \<le> f32_mul (f32_div (of_int e) CLOCKS_PER_SEC) 1000"
  by (auto simp: f32_mul_def f32_div_def CLOCKS_PER_SEC_def divide_right_mono intro!: f32_round_mono)

lemma elapsed_exact:
  assumes "0 \<le> sint a" "sint a < 2 ^ 24" "0 \<le> sint b" "sint b < 2 ^ 24"
  shows "elapsed_ms a b = f32_mul (f32_div (of_int (sint a - sint b)) CLOCKS_PER_SEC) 1000"
proof -
  have "f32_of_int (sint a) = of_int (sint a)" "f32_of_int (sint b) = of_int (sint b)"
    "f32_of_int (sint a - sint b) = of_int (sint a - sint b)"
    by (rule f32_of_int_exact, use assms in simp)+
  then show ?thesis by (simp add: elapsed_ms_def f32_sub_def f32_of_int_def)
qed

lemma elapsed_at:
  "f32_mul (f32_div (of_int 19999) CLOCKS_PER_SEC) 1000 < 20"
  "f32_mul (f32_div (of_int 20000) CLOCKS_PER_SEC) 1000 = 20"
  "f32_mul (f32_div (of_int 30000) CLOCKS_PER_SEC) 1000 = 30"
  "30 < f32_mul (f32_div (of_int 30001) CLOCKS_PER_SEC) 1000"
  "f32_mul (f32_div (of_int 100000) CLOCKS_PER_SEC) 1000 = 100"
  "100 < f32_mul (f32_div (of_int 100001) CLOCKS_PER_SEC) 1000"
  unfolding CLOCKS_PER_SEC_def by code_simp+

lemma interval_thresholds:
  assumes "0 \<le> sint a" "sint a < 2 ^ 24" "0 \<le> sint b" "sint b < 2 ^ 24"
  shows "(elapsed_ms a b < SHORT_TOUCH_TIME \<longleftrightarrow> sint a - sint b < 20000) \<and>
    (VSYNC_TOUCH_TIME < elapsed_ms a b \<longleftrightarrow> 30000 < sint a - sint b) \<and>
    (LONG_TOUCH_TIME < elapsed_ms a b \<longleftrightarrow> 100000 < sint a - sint b)"
proof -
  let ?f = "\<lambda>d. f32_mul (f32_div (of_int d) CLOCKS_PER_SEC) 1000"
  have below: "?f d < 20 \<longleftrightarrow> d < 20000" for d
    using elapsed_mono [of d 19999] elapsed_mono [of 20000 d] elapsed_at(1,2) by (cases "d < 20000") auto
  have above: "K < ?f d \<longleftrightarrow> k < d" if "?f k = K" "K < ?f (k + 1)" for d k K
    using elapsed_mono [of d k] elapsed_mono [of "k + 1" d] that by (cases "k < d") auto
  have a30: "30 < ?f d \<longleftrightarrow> 30000 < d" for d by (rule above) (use elapsed_at in simp_all)
  have a100: "100 < ?f d \<longleftrightarrow> 100000 < d" for d by (rule above) (use elapsed_at in simp_all)
  show ?thesis
    unfolding elapsed_exact [OF assms] SHORT_TOUCH_TIME_def VSYNC_TOUCH_TIME_def LONG_TOUCH_TIME_def
    by (simp only: below a30 a100 simp_thms)
qed

section \<open>Properties\<close>

text \<open>
  C21. The flags stay consistent under any sequence of hints and any kernel: they are 0 or 1,
  the vsync budget is between 0 and 4 and positive exactly while the vsync boost is on, and
  the scroll timer is only marked while touch pulses are stopped.
\<close>

theorem power_flags_consistent: "power_inv (fold (power_step P) hints power_start)"
  by (rule ph.run_inv) (simp add: power_inv_def power_start_def VSYNC_BOOST_COUNT_def)

text \<open>
  C25. The thresholds are exact. While both clock values are below \<open>2^24\<close> microseconds, the
  single-precision interval is below 20 ms, above 30 ms and above 100 ms exactly when the
  integer difference is below 20000, above 30000 and above 100000 microseconds.
\<close>

theorem interval_thresholds_exact:
  assumes "0 \<le> sint a" "sint a < 2 ^ 24" "0 \<le> sint b" "sint b < 2 ^ 24"
  shows "(elapsed_ms a b < SHORT_TOUCH_TIME \<longleftrightarrow> sint a - sint b < 20000) \<and>
    (VSYNC_TOUCH_TIME < elapsed_ms a b \<longleftrightarrow> 30000 < sint a - sint b) \<and>
    (LONG_TOUCH_TIME < elapsed_ms a b \<longleftrightarrow> 100000 < sint a - sint b)"
  by (rule interval_thresholds [OF assms])

theorem interval_thresholds_exact_witness:
  "elapsed_ms 1519999 1500000 < SHORT_TOUCH_TIME \<and> \<not> elapsed_ms 1520000 1500000 < SHORT_TOUCH_TIME"
  using interval_thresholds_exact [of 1519999 1500000] interval_thresholds_exact [of 1520000 1500000] by simp

text \<open>
  A vsync boost spends its budget and no more: with pulses enabled, \<open>k\<close> vsync hints write
  the pulse \<open>min k n\<close> times when \<open>n\<close> pulses are left, and the boost ends with the last.
\<close>

theorem vsync_budget_spent:
  assumes "px_works P" and "power_inv s" and "touchboost_disable s = 0"
  shows "let t = fold (power_step P) (replicate k (POWER_HINT_VSYNC, 1)) s in
     times_written (hist t) TOUCHBOOST_PULSE_SYSFS =
       times_written (hist s) TOUCHBOOST_PULSE_SYSFS + min k (nat (vsync_count s)) \<and>
     vsync_count t = max 0 (vsync_count s - int k) \<and>
     (vsync_boost t = 1 \<longleftrightarrow> int k < vsync_count s)"
  using assms(2,3)
proof (induction k arbitrary: s)
  case 0
  then show ?case by (auto simp: power_inv_def)
next
  case (Suc k)
  let ?t = "power_step P (POWER_HINT_VSYNC, 1) s"
  have t: "?t = vsync_pulse P 1 s"
    using Suc.prems(2) by (simp add: power_step_def intel_power_hint_def vsync_exec vsync_trigger_def)
  have inv: "power_inv ?t" using Suc.prems(1) by (rule power_inv_step)
  have dis: "touchboost_disable ?t = 0" using Suc.prems(2) by (simp add: t vsync_pulse_def Let_def)
  have count: "vsync_count ?t = max 0 (vsync_count s - 1)"
    using Suc.prems(1) by (auto simp: t vsync_pulse_def power_inv_def Let_def)
  have times: "times_written (hist ?t) TOUCHBOOST_PULSE_SYSFS =
      times_written (hist s) TOUCHBOOST_PULSE_SYSFS + (if 0 < vsync_count s then 1 else 0)"
    using Suc.prems(1) assms(1) by (auto simp: t vsync_pulse_def power_inv_def Let_def pw.put_times)
  from Suc.IH [OF inv dis] Suc.prems(1) show ?case
    by (auto simp: Let_def count times power_inv_def min_def max_def nat_diff_distrib split: if_splits)
qed


text \<open>The budget a vsync hint grants is written out by four hints, starting with the granting one.\<close>

theorem vsync_budget_spent_witness:
  "times_written (hist (fold (power_step (demo_posix 0)) (replicate 7 (POWER_HINT_VSYNC, 1))
     (power_start\<lparr>vsync_boost := 1, vsync_count := 4\<rparr>))) TOUCHBOOST_PULSE_SYSFS = 4"
proof -
  let ?s = "power_start\<lparr>vsync_boost := 1, vsync_count := 4\<rparr>"
  have "power_inv ?s" "touchboost_disable ?s = 0" "vsync_count ?s = 4" "hist ?s = []"
    by (simp_all add: power_inv_def power_start_def VSYNC_BOOST_COUNT_def)
  then show ?thesis using vsync_budget_spent [of "demo_posix 0" ?s 7, OF demo_posix_works] by (simp add: Let_def)
qed

text \<open>
  The end of a scroll grants a boost: a vsync hint more than 30 ms after the last touch,
  while touch pulses are stopped, enables them again and grants four vsync pulses, the first
  of which it writes itself.
\<close>

theorem vsync_after_scroll_boosts:
  assumes "px_works P" and "touchboost_disable s = 1"
    and "VSYNC_TOUCH_TIME < elapsed_ms (px_clock P (hist s)) (curr_time s)"
  shows "let t = power_step P (POWER_HINT_VSYNC, 1) s in
     touchboost_disable t = 0 \<and> timer_set t = 0 \<and> vsync_boost t = 1 \<and> vsync_count t = 3 \<and>
     times_written (hist t) TOUCHBOOST_PULSE_SYSFS = Suc (times_written (hist s) TOUCHBOOST_PULSE_SYSFS)"
  using assms
  by (simp add: power_step_def intel_power_hint_def vsync_exec vsync_trigger_def vsync_pulse_def Let_def
      VSYNC_BOOST_COUNT_def pw.put_times)

theorem vsync_after_scroll_boosts_witness:
  "vsync_count (power_step (demo_posix 50000) (POWER_HINT_VSYNC, 1) (power_start\<lparr>touchboost_disable := 1\<rparr>)) = 3"
proof -
  have "VSYNC_TOUCH_TIME < elapsed_ms 50000 0"
    using interval_thresholds [of 50000 0] by simp
  then show ?thesis
    using vsync_after_scroll_boosts [of "demo_posix 50000" "power_start\<lparr>touchboost_disable := 1\<rparr>", OF demo_posix_works]
    by (simp add: Let_def demo_posix_def power_start_def)
qed

fun short_run :: "'b posix_scheme \<Rightarrow> nat \<Rightarrow> 'a power_scheme \<Rightarrow> bool" where
  "short_run P 0 s = True"
| "short_run P (Suc n) s =
     (elapsed_ms (px_clock P (hist s)) (prev_time s) < SHORT_TOUCH_TIME \<and>
      short_run P n (power_step P (POWER_HINT_INTERACTION, 0) s))"

lemma short_touch_step:
  assumes "px_works P" and "elapsed_ms (px_clock P (hist s)) (prev_time s) < SHORT_TOUCH_TIME"
    and "0 \<le> sint (consecutive_touch_int s)" and "sint (consecutive_touch_int s) < 2 ^ 31 - 1"
    and "touchboost_disable s = (if 4 < sint (consecutive_touch_int s) then 1 else 0)"
  defines "t \<equiv> power_step P (POWER_HINT_INTERACTION, 0) s"
  shows "sint (consecutive_touch_int t) = sint (consecutive_touch_int s) + 1 \<and>
    touchboost_disable t = (if 4 < sint (consecutive_touch_int t) then 1 else 0) \<and>
    times_written (hist t) TOUCHBOOST_PULSE_SYSFS = times_written (hist s) TOUCHBOOST_PULSE_SYSFS +
      (if sint (consecutive_touch_int s) < 4 then 1 else 0)"
proof -
  have inc: "sint (consecutive_touch_int s + 1) = sint (consecutive_touch_int s) + 1"
    unfolding sint_word_ariths using assms(3,4) by (subst signed_take_bit_int_eq_self) auto
  show ?thesis
    using assms(1-5)
    by (auto simp: t_def power_step_def intel_power_hint_def interaction_exec touch_update_def
        classify_interval_def simple_touch_def scrolling_def Let_def inc pw.put_times)
qed

text \<open>
  A touch more than 100 ms after the one before starts over: all flags and counters are
  reset and the touch pulse is written, whatever the state was.
\<close>

theorem first_touch_starts_over:
  assumes "px_works P" and "LONG_TOUCH_TIME < elapsed_ms (px_clock P (hist s)) (prev_time s)"
  shows "let t = power_step P (POWER_HINT_INTERACTION, d) s in
     touchboost_disable t = 0 \<and> timer_set t = 0 \<and> vsync_boost t = 0 \<and> vsync_count t = 0 \<and>
     consecutive_touch_int t = 0 \<and> prev_time t = px_clock P (hist s) \<and>
     times_written (hist t) TOUCHBOOST_PULSE_SYSFS = Suc (times_written (hist s) TOUCHBOOST_PULSE_SYSFS)"
proof -
  have "\<not> elapsed_ms (px_clock P (hist s)) (prev_time s) < SHORT_TOUCH_TIME"
    using assms(2) by (simp add: LONG_TOUCH_TIME_def SHORT_TOUCH_TIME_def)
  with assms show ?thesis
    by (simp add: power_step_def intel_power_hint_def interaction_exec touch_update_def
        classify_interval_def simple_touch_def scrolling_def Let_def pw.put_times)
qed

theorem first_touch_starts_over_witness:
  "times_written (hist (power_step (demo_posix 150000) (POWER_HINT_INTERACTION, 0)
     (power_start\<lparr>touchboost_disable := 1\<rparr>))) TOUCHBOOST_PULSE_SYSFS = 1"
proof -
  have "LONG_TOUCH_TIME < elapsed_ms 150000 0" using interval_thresholds [of 150000 0] by simp
  then show ?thesis
    using first_touch_starts_over [of "demo_posix 150000" "power_start\<lparr>touchboost_disable := 1\<rparr>" 0, OF demo_posix_works]
    by (simp add: Let_def demo_posix_def power_start_def)
qed

text \<open>In a run of short touches each touch pulses until the fifth short interval is counted.\<close>

lemma short_run_pulses:
  assumes "px_works P" "short_run P n s" "0 \<le> sint (consecutive_touch_int s)" "sint (consecutive_touch_int s) + int n < 2 ^ 31"
    and "touchboost_disable s = (if 4 < sint (consecutive_touch_int s) then 1 else 0)"
  shows "times_written (hist (fold (power_step P) (replicate n (POWER_HINT_INTERACTION, 0)) s)) TOUCHBOOST_PULSE_SYSFS =
     times_written (hist s) TOUCHBOOST_PULSE_SYSFS + min n (4 - nat (sint (consecutive_touch_int s)))"
  using assms(2-5)
proof (induction n arbitrary: s)
  case (Suc n)
  let ?t = "power_step P (POWER_HINT_INTERACTION, 0) s"
  have "0 \<le> sint (consecutive_touch_int s)" "sint (consecutive_touch_int s) < 2 ^ 31 - 1"
    using Suc.prems by auto
  with Suc.prems have step: "sint (consecutive_touch_int ?t) = sint (consecutive_touch_int s) + 1"
    "touchboost_disable ?t = (if 4 < sint (consecutive_touch_int ?t) then 1 else 0)"
    "times_written (hist ?t) TOUCHBOOST_PULSE_SYSFS = times_written (hist s) TOUCHBOOST_PULSE_SYSFS +
      (if sint (consecutive_touch_int s) < 4 then 1 else 0)"
    using short_touch_step [OF assms(1), of s] by simp_all
  have "times_written (hist (fold (power_step P) (replicate n (POWER_HINT_INTERACTION, 0)) ?t)) TOUCHBOOST_PULSE_SYSFS =
    times_written (hist ?t) TOUCHBOOST_PULSE_SYSFS + min n (4 - nat (sint (consecutive_touch_int ?t)))"
    using Suc.prems step by (intro Suc.IH) auto
  moreover have "fold (power_step P) (replicate (Suc n) (POWER_HINT_INTERACTION, 0)) s =
    fold (power_step P) (replicate n (POWER_HINT_INTERACTION, 0)) ?t" by simp
  moreover obtain c where "sint (consecutive_touch_int s) = int c"
    using Suc.prems(2) by (metis zero_le_imp_eq_int)
  ultimately show ?case using step(1,3) by (auto simp: nat_add_distrib)
qed simp


text \<open>
  C24. A scroll gets five touch pulses: the first touch of a scroll, more than 100 ms after the
  touch before, writes the pulse, whatever the state was; of the touches that follow, each less
  than 20 ms after the one before it and fewer than \<open>2 ^ 31\<close> of them, the first four write it
  and all later ones write none. The kernel's calls work.
\<close>

theorem scroll_pulses_five_times:
  assumes "px_works P" "LONG_TOUCH_TIME < elapsed_ms (px_clock P (hist s)) (prev_time s)"
    and "short_run P n (power_step P (POWER_HINT_INTERACTION, 0) s)" "n < 2 ^ 31"
  shows "times_written (hist (fold (power_step P) (replicate (Suc n) (POWER_HINT_INTERACTION, 0)) s)) TOUCHBOOST_PULSE_SYSFS =
     times_written (hist s) TOUCHBOOST_PULSE_SYSFS + 1 + min n 4"
proof -
  let ?t = "power_step P (POWER_HINT_INTERACTION, 0) s"
  have "touchboost_disable ?t = 0" "consecutive_touch_int ?t = 0"
    "times_written (hist ?t) TOUCHBOOST_PULSE_SYSFS = Suc (times_written (hist s) TOUCHBOOST_PULSE_SYSFS)"
    using first_touch_starts_over [OF assms(1,2), of 0] by (simp_all add: Let_def)
  with short_run_pulses [OF assms(1,3)] assms(4) show ?thesis by simp
qed

text \<open>The clock reads 150 ms at all seven touches; the touch before was at 0.\<close>

theorem scroll_pulses_five_times_witness:
  "times_written (hist (fold (power_step (demo_posix 150000)) (replicate 7 (POWER_HINT_INTERACTION, 0)) power_start))
     TOUCHBOOST_PULSE_SYSFS = 5"
proof -
  have z: "elapsed_ms 150000 150000 < SHORT_TOUCH_TIME" "LONG_TOUCH_TIME < elapsed_ms 150000 0"
    using interval_thresholds [of 150000 150000] interval_thresholds [of 150000 0] by simp_all
  have prev: "prev_time (power_step (demo_posix 150000) (POWER_HINT_INTERACTION, 0) s) = 150000" for s :: power
    by (simp add: power_step_def intel_power_hint_def interaction_exec touch_update_def classify_interval_def
        simple_touch_def scrolling_def Let_def demo_posix_def)
  have "short_run (demo_posix 150000) n s" if "prev_time s = 150000" for n and s :: power
    using that
  proof (induction n arbitrary: s)
    case (Suc n)
    with prev z show ?case by (simp add: demo_posix_def)
  qed simp
  then have "short_run (demo_posix 150000) 6 (power_step (demo_posix 150000) (POWER_HINT_INTERACTION, 0) power_start)"
    by (simp add: prev)
  then have "times_written (hist (fold (power_step (demo_posix 150000)) (replicate (Suc 6) (POWER_HINT_INTERACTION, 0)) power_start))
      TOUCHBOOST_PULSE_SYSFS = times_written (hist power_start) TOUCHBOOST_PULSE_SYSFS + 1 + min 6 4"
    using z by (intro scroll_pulses_five_times demo_posix_works) (simp_all add: power_start_def demo_posix_def)
  then show ?thesis by (simp add: power_start_def)
qed

definition opened :: "history \<Rightarrow> string set" where
  "opened h = {p. \<exists>f fd. EvOpen p f fd \<in> set h}"

text \<open>
  No hint ever opens a file other than the touch-boost trigger: in particular the timer
  rate is never changed, with any kernel.
\<close>

theorem hints_open_only_the_trigger:
  "opened (hist (fold (power_step P) hints s)) \<subseteq> insert TOUCHBOOST_PULSE_SYSFS (opened (hist s))"
proof -
  have wr: "opened (hist (exec (sysfs_write P p v) t)) \<subseteq> insert p (opened (hist t))"
    for p v and t :: "'a power_scheme"
    by (auto simp: opened_def exec_def sysfs_write_def power_sys_defs split: sum.splits option.splits if_splits)
  have clock: "opened (EvClock c # h) = opened h" for c h by (auto simp: opened_def)
  have step: "opened (hist (power_step P h t)) \<subseteq> insert TOUCHBOOST_PULSE_SYSFS (opened (hist t))"
    for h and t :: "'a power_scheme"
  proof (cases "fst h")
    case POWER_HINT_VSYNC
    have "opened (hist (vsync_trigger P t)) = opened (hist t)" by (auto simp: vsync_trigger_def Let_def clock)
    moreover have "opened (hist (vsync_pulse P d u)) \<subseteq> insert TOUCHBOOST_PULSE_SYSFS (opened (hist u))" 
      for d and u :: "'a power_scheme"
      by (auto simp: vsync_pulse_def Let_def dest: subsetD [OF wr])
    ultimately show ?thesis
      using POWER_HINT_VSYNC by (simp add: power_step_def intel_power_hint_def vsync_exec) blast
  next
    case POWER_HINT_INTERACTION
    have "hist (touch_update d u) = hist u" for d and u :: "'a power_scheme"
      by (auto simp: touch_update_def classify_interval_def simple_touch_def scrolling_def)
    with POWER_HINT_INTERACTION show ?thesis
      by (auto simp: power_step_def intel_power_hint_def interaction_exec Let_def clock dest!: subsetD [OF wr])
  qed (auto simp: power_step_def intel_power_hint_def)
  show ?thesis
  proof (induction hints arbitrary: s)
    case (Cons h hs)
    with step [of h s] Cons.IH [of "power_step P h s"] show ?case by auto
  qed auto
qed

text \<open>
  \<^verbatim>\<open>sysfs_read\<close> fills the caller's buffer and never more: on a kernel that keeps the
  POSIX contract, the text and its terminator fit in the \<open>num_bytes\<close> offered.
\<close>

theorem sysfs_read_fits:
  assumes "posix_laws P" and "num_bytes \<noteq> 0"
  shows "length (snd (result (sysfs_read P path num_bytes) s)) \<le> unat num_bytes"
proof -
  have "unat (num_bytes - 1) = unat num_bytes - 1" using assms(2) by (simp add: unat_minus_one)
  moreover have "0 < unat num_bytes" using assms(2) by (simp add: unat_gt_0)
  moreover have "length bs \<le> n" if "px_read P h fd n = Inr bs" for h fd n bs
    using assms(1) that by (auto simp: posix_laws_def)
  ultimately show ?thesis
    by (fastforce simp: result_def sysfs_read_def power_sys_defs split: sum.splits option.splits)
qed

theorem sysfs_read_fits_witness:
  "length (snd (result (sysfs_read (demo_posix 0) TOUCHBOOST_SYSFS 16) power_start)) \<le> unat (16 :: u32)"
proof -
  have "posix_laws (demo_posix 0)" by (auto simp: posix_laws_def demo_posix_def)
  then show ?thesis by (rule sysfs_read_fits) simp
qed

end
