(* ===== verification/PowerGovernor.thy ===== *)
theory PowerGovernor
  imports PowerHal
begin

text \<open>
  What the power module promises: touches pulse the governor until a scroll is recognised, the
  end of a scroll earns four pulses on vsync. The specification has integer microseconds, one
  flag and one budget; \<open>libpower/power.c\<close> implements it with single-precision intervals,
  three flags, two time stamps and files.
\<close>

section \<open>The specification\<close>

record governor =
  g_last :: int
  g_short :: int
  g_muted :: bool
  g_budget :: int

text \<open>
  Whether the time from \<open>before\<close> to \<open>now\<close>, clock readings in microseconds, was found to exceed
  \<open>k\<close>: exact on the first \<open>2^24\<close> microseconds of the clock, off by at most 256 microseconds at
  any other time, negative readings included.
\<close>

definition exceeds :: "int \<Rightarrow> int \<Rightarrow> int \<Rightarrow> bool \<Rightarrow> bool" where
  "exceeds k now before found \<longleftrightarrow>
     (if 0 \<le> now \<and> now < 2 ^ 24 \<and> 0 \<le> before \<and> before < 2 ^ 24 then found = (k < now - before)
      else (found \<longrightarrow> k < now - before + 256) \<and> (\<not> found \<longrightarrow> now - before \<le> k + 256))"

text \<open>
  A touch less than 20 ms after the one before is part of a scroll; the fifth one mutes the
  touch pulses. A touch more than 100 ms after the one before starts over.
\<close>

definition touched :: "int \<Rightarrow> bool \<Rightarrow> bool \<Rightarrow> governor \<Rightarrow> governor" where
  "touched now short long g =
     (let n = (if short then g_short g + 1 else if long then 0 else g_short g) in
      \<lparr>g_last = now, g_short = n, g_muted = (\<not> long \<and> g_muted g \<or> short \<and> 4 < n),
       g_budget = (if long then 0 else g_budget g)\<rparr>)"

text \<open>Muted pulses return when no touch came for 30 ms, with a budget of four for the vsync hints.\<close>

definition released :: "bool \<Rightarrow> governor \<Rightarrow> governor" where
  "released quiet g = (if g_muted g \<and> quiet then g\<lparr>g_muted := False, g_budget := 4\<rparr> else g)"

definition spent :: "int \<Rightarrow> governor \<Rightarrow> nat \<times> governor" where
  "spent data g = (if data = 1 \<and> 0 < g_budget g then (1, g\<lparr>g_budget := g_budget g - 1\<rparr>) else (0, g))"

text \<open>What a hint answers is the clock when it came and the number of pulses it wrote.\<close>

fun governor_spec :: "power_hint \<times> int \<Rightarrow> governor \<Rightarrow> int \<times> nat \<Rightarrow> governor \<Rightarrow> bool" where
  "governor_spec (POWER_HINT_INTERACTION, data) g (now, pulses) g' =
     (\<exists>short long. exceeds 19999 now (g_last g) (\<not> short) \<and> exceeds 100000 now (g_last g) long \<and> \<not> (short \<and> long) \<and>
        g' = touched now short long g \<and> pulses = (if g_muted g' then 0 else 1))"
| "governor_spec (POWER_HINT_VSYNC, data) g (now, pulses) g' =
     (\<exists>quiet. exceeds 30000 now (g_last g) quiet \<and> (pulses, g') = spent data (released quiet g))"
| "governor_spec (POWER_HINT_OTHER n, data) g (now, pulses) g' = (g' = g \<and> pulses = 0)"

section \<open>The abstraction\<close>

definition governor_of :: "'a power_scheme \<Rightarrow> governor" where
  "governor_of s = \<lparr>g_last = sint (curr_time s), g_short = sint (consecutive_touch_int s),
     g_muted = (touchboost_disable s = 1), g_budget = vsync_count s\<rparr>"

definition pulses :: "'a power_scheme \<Rightarrow> nat" where
  "pulses s = times_written (hist s) TOUCHBOOST_PULSE_SYSFS"

definition hint_answer :: "'b posix_scheme \<Rightarrow> power_hint \<times> int \<Rightarrow> 'a power_scheme \<Rightarrow> int \<times> nat" where
  "hint_answer P h s = (sint (px_clock P (hist s)), pulses (power_step P h s) - pulses s)"

text \<open>The flags are consistent and the two time stamps of the last touch agree.\<close>

definition stamped :: "'a power_scheme \<Rightarrow> bool" where
  "stamped s \<longleftrightarrow> power_inv s \<and> prev_time s = curr_time s"

text \<open>The counter of short intervals is an \<^verbatim>\<open>int\<close> that must not overflow.\<close>

definition hint_guard :: "'b posix_scheme \<Rightarrow> power_hint \<times> int \<Rightarrow> 'a power_scheme \<Rightarrow> bool" where
  "hint_guard P h s \<longleftrightarrow> sint (consecutive_touch_int s) < 2 ^ 31 - 1"

section \<open>The measured interval\<close>

lemma measure_mono: "x \<le> y \<Longrightarrow> f32_mul (f32_div x CLOCKS_PER_SEC) 1000 \<le> f32_mul (f32_div y CLOCKS_PER_SEC) 1000"
  by (auto simp: f32_mul_def f32_div_def CLOCKS_PER_SEC_def divide_right_mono intro!: f32_round_mono)

lemma f32_of_int_near:
  assumes "- (2 ^ 31) \<le> n" "n \<le> 2 ^ 31" shows "\<bar>f32_of_int n - of_int n\<bar> \<le> 128"
proof -
  have pos: "\<bar>f32_of_int m - of_int m\<bar> \<le> 128" if "0 \<le> m" "m \<le> 2 ^ 31" for m
  proof -
    have "(of_int m :: rat) \<le> of_int (2 ^ 31)" using that(2) by (simp only: of_int_le_iff)
    with f32_round_error [of "of_int m"] that(1) show ?thesis by (simp add: f32_of_int_def)
  qed
  have "f32_of_int (- m) = - f32_of_int m" for m by (simp add: f32_of_int_def f32_round_neg)
  with pos [of n] pos [of "- n"] assms show ?thesis by (cases "0 \<le> n") (auto simp: abs_if split: if_splits)
qed

lemma f32_of_s32: "\<bar>f32_of_int (sint (a :: s32)) - of_int (sint a)\<bar> \<le> 128"
  using sint_s32_range [of a] by (intro f32_of_int_near) (simp_all add: LONG_MIN_def LONG_MAX_def)

text \<open>For all clock readings, the interval lies between the exact ones for 256 microseconds less and more.\<close>

lemma elapsed_between:
  fixes a b :: s32
  defines "d \<equiv> sint a - sint b"
  shows "k + 256 \<le> d \<Longrightarrow> \<bar>k\<bar> < 2 ^ 24 \<Longrightarrow> f32_mul (f32_div (of_int k) CLOCKS_PER_SEC) 1000 \<le> elapsed_ms a b"
    and "d \<le> k - 256 \<Longrightarrow> \<bar>k\<bar> < 2 ^ 24 \<Longrightarrow> elapsed_ms a b \<le> f32_mul (f32_div (of_int k) CLOCKS_PER_SEC) 1000"
proof -
  let ?x = "f32_of_int (sint a) - f32_of_int (sint b)"
  have near: "\<bar>?x - of_int d\<bar> \<le> 256"
    using f32_of_s32 [of a] f32_of_s32 [of b] unfolding d_def abs_le_iff by (simp only: of_int_diff) linarith
  have ms: "elapsed_ms a b = f32_mul (f32_div (f32_round ?x) CLOCKS_PER_SEC) 1000"
    by (simp add: elapsed_ms_def f32_sub_def)
  have exact: "f32_round (of_int k) = of_int k" if "\<bar>k\<bar> < 2 ^ 24" for k
    using f32_of_int_exact [OF that] by (simp add: f32_of_int_def)
  show "f32_mul (f32_div (of_int k) CLOCKS_PER_SEC) 1000 \<le> elapsed_ms a b" if "k + 256 \<le> d" "\<bar>k\<bar> < 2 ^ 24"
  proof -
    have "(of_int (k + 256) :: rat) \<le> of_int d" using that(1) by (simp only: of_int_le_iff)
    then have "of_int k \<le> ?x" using near by (simp add: abs_le_iff)
    then show ?thesis unfolding ms using exact [OF that(2)] by (metis f32_round_mono measure_mono)
  qed
  show "elapsed_ms a b \<le> f32_mul (f32_div (of_int k) CLOCKS_PER_SEC) 1000" if "d \<le> k - 256" "\<bar>k\<bar> < 2 ^ 24"
  proof -
    have "(of_int d :: rat) \<le> of_int (k - 256)" using that(1) by (simp only: of_int_le_iff)
    then have "?x \<le> of_int k" using near by (simp add: abs_le_iff)
    then show ?thesis unfolding ms using exact [OF that(2)] by (metis f32_round_mono measure_mono)
  qed
qed

lemma elapsed_outside:
  fixes a b :: s32
  defines "d \<equiv> sint a - sint b"
  shows "d \<le> 19743 \<Longrightarrow> elapsed_ms a b < 20" "20256 \<le> d \<Longrightarrow> 20 \<le> elapsed_ms a b"
    "d \<le> 29744 \<Longrightarrow> elapsed_ms a b \<le> 30" "30257 \<le> d \<Longrightarrow> 30 < elapsed_ms a b"
    "d \<le> 99744 \<Longrightarrow> elapsed_ms a b \<le> 100" "100257 \<le> d \<Longrightarrow> 100 < elapsed_ms a b"
  unfolding d_def
  by (rule order.strict_trans1 [OF elapsed_between(2) elapsed_at(1)], simp, simp)
    (rule order.trans [OF eq_refl [OF elapsed_at(2) [symmetric]] elapsed_between(1)], simp, simp,
     rule order.trans [OF elapsed_between(2) eq_refl [OF elapsed_at(3)]], simp, simp,
     rule order.strict_trans2 [OF elapsed_at(4) elapsed_between(1)], simp, simp,
     rule order.trans [OF elapsed_between(2) eq_refl [OF elapsed_at(5)]], simp, simp,
     rule order.strict_trans2 [OF elapsed_at(6) elapsed_between(1)], simp, simp)

lemma measured:
  "exceeds 19999 (sint a) (sint b) (\<not> elapsed_ms a b < SHORT_TOUCH_TIME)"
  "exceeds 30000 (sint a) (sint b) (VSYNC_TOUCH_TIME < elapsed_ms a b)"
  "exceeds 100000 (sint a) (sint b) (LONG_TOUCH_TIME < elapsed_ms a b)"
  using interval_thresholds [of a b] elapsed_outside [of a b] linorder_not_le
  unfolding exceeds_def SHORT_TOUCH_TIME_def VSYNC_TOUCH_TIME_def LONG_TOUCH_TIME_def
  by (smt (verit))+

text \<open>Later than \<open>2^24\<close> microseconds an interval can be misjudged: 19.990 ms are found to be 20 ms or more.\<close>

lemma late_interval_misjudged:
  "sint (1073761864 :: s32) - sint (1073741874 :: s32) = 19990 \<and> \<not> elapsed_ms 1073761864 1073741874 < SHORT_TOUCH_TIME"
  unfolding elapsed_ms_def SHORT_TOUCH_TIME_def CLOCKS_PER_SEC_def by code_simp

section \<open>Each hint\<close>

lemma touch_governor:
  assumes "power_inv s" "sint (consecutive_touch_int s) < 2 ^ 31 - 1" "0 \<le> sint (consecutive_touch_int s)"
  shows "governor_of (touch_update d s) =
     touched (sint (curr_time s)) (d < SHORT_TOUCH_TIME) (LONG_TOUCH_TIME < d) (governor_of s)"
proof -
  have inc: "sint (consecutive_touch_int s + 1) = sint (consecutive_touch_int s) + 1"
    unfolding sint_word_ariths using assms(2,3) by (subst signed_take_bit_int_eq_self) auto
  have "\<not> (d < SHORT_TOUCH_TIME \<and> LONG_TOUCH_TIME < d)" by (simp add: SHORT_TOUCH_TIME_def LONG_TOUCH_TIME_def)
  moreover have "touchboost_disable s = 0 \<or> touchboost_disable s = 1" using assms(1) by (simp add: power_inv_def)
  ultimately show ?thesis
    using inc unfolding touch_update_def classify_interval_def simple_touch_def scrolling_def governor_of_def touched_def
    by (cases "d < SHORT_TOUCH_TIME"; cases "LONG_TOUCH_TIME < d") (auto simp: Let_def)
qed

lemma governor_write [simp]: "governor_of (exec (sysfs_write P p v) s) = governor_of s"
  by (simp add: governor_of_def)

lemma pulse_written: "px_works P \<Longrightarrow> pulses (exec (sysfs_write P TOUCHBOOST_PULSE_SYSFS ''1'') s) = Suc (pulses s)"
  by (simp add: pulses_def pw.put_times)

lemma touch_update_pulses [simp]: "pulses (touch_update d s) = pulses s" "curr_time (touch_update d s) = curr_time s"
  "prev_time (touch_update d s) = prev_time s"
  by (simp_all add: pulses_def touch_update_def classify_interval_def simple_touch_def scrolling_def)

lemma touch_simulated:
  assumes "px_works P" "stamped s" "sint (consecutive_touch_int s) < 2 ^ 31 - 1" "0 \<le> sint (consecutive_touch_int s)"
    "fst h = POWER_HINT_INTERACTION"
  shows "governor_spec h (governor_of s) (hint_answer P h s) (governor_of (power_step P h s))"
proof -
  define now where "now = px_clock P (hist s)"
  define d where "d = elapsed_ms now (prev_time s)"
  define u where "u = s\<lparr>hist := EvClock now # hist s, curr_time := now, prev_time := now\<rparr>"
  define t where "t = touch_update d u"
  have step: "power_step P h s = (if touchboost_disable t = 0 then exec (sysfs_write P TOUCHBOOST_PULSE_SYSFS ''1'') t else t)"
    using assms(5) by (simp add: power_step_def intel_power_hint_def interaction_exec Let_def now_def d_def u_def t_def)
  have inv: "power_inv u" using assms(2) by (auto simp: u_def stamped_def power_inv_def)
  have bit: "touchboost_disable t \<in> {0, 1}" using touch_update_inv [OF inv, of d] by (simp add: t_def power_inv_def)
  have "governor_of t = touched (sint now) (d < SHORT_TOUCH_TIME) (LONG_TOUCH_TIME < d) (governor_of u)"
    using touch_governor [OF inv, of d] assms(3,4) by (simp add: t_def u_def)
  then have g: "governor_of t = touched (sint now) (d < SHORT_TOUCH_TIME) (LONG_TOUCH_TIME < d) (governor_of s)"
    by (simp add: touched_def governor_of_def u_def)
  have n: "pulses t = pulses s" by (simp add: t_def) (simp add: u_def pulses_def)
  have m: "g_muted (governor_of t) = (touchboost_disable t = 1)" by (simp add: governor_of_def)
  have "exceeds 19999 (sint now) (g_last (governor_of s)) (\<not> d < SHORT_TOUCH_TIME)"
    "exceeds 100000 (sint now) (g_last (governor_of s)) (LONG_TOUCH_TIME < d)"
    using measured [of now "prev_time s"] assms(2) by (simp_all add: d_def governor_of_def stamped_def)
  moreover have "\<not> (d < SHORT_TOUCH_TIME \<and> LONG_TOUCH_TIME < d)" by (simp add: SHORT_TOUCH_TIME_def LONG_TOUCH_TIME_def)
  moreover have "hint_answer P h s = (sint now, if touchboost_disable t = 1 then 0 else 1)"
    using bit pulse_written [OF assms(1), of t] by (auto simp: hint_answer_def step n now_def)
  moreover have "governor_of (power_step P h s) = governor_of t" by (simp add: step)
  ultimately show ?thesis using g m assms(5) by (cases h) auto
qed

lemma trigger_frame:
  "pulses (vsync_trigger P s) = pulses s" "curr_time (vsync_trigger P s) = curr_time s"
  "prev_time (vsync_trigger P s) = prev_time s" "consecutive_touch_int (vsync_trigger P s) = consecutive_touch_int s"
  by (simp_all add: vsync_trigger_def pulses_def Let_def)

lemma vsync_simulated:
  assumes "px_works P" "stamped s" "fst h = POWER_HINT_VSYNC"
  shows "governor_spec h (governor_of s) (hint_answer P h s) (governor_of (power_step P h s))"
proof -
  define now where "now = px_clock P (hist s)"
  define quiet where "quiet \<longleftrightarrow> VSYNC_TOUCH_TIME < elapsed_ms now (curr_time s)"
  define u where "u = vsync_trigger P s"
  have step: "power_step P h s = vsync_pulse P (snd h) u"
    using assms(3) by (simp add: power_step_def intel_power_hint_def vsync_exec u_def)
  have g: "governor_of u = released quiet (governor_of s)"
    by (simp add: u_def quiet_def now_def vsync_trigger_def released_def governor_of_def VSYNC_BOOST_COUNT_def Let_def)
  have "power_inv u" using assms(2) vsync_trigger_inv [of s P] by (simp add: u_def stamped_def)
  then have boost: "vsync_boost u \<noteq> 0 \<longleftrightarrow> 0 < vsync_count u" by (auto simp: power_inv_def)
  have "(pulses (vsync_pulse P (snd h) u) - pulses u, governor_of (vsync_pulse P (snd h) u)) = spent (snd h) (governor_of u)"
  proof (cases "snd h = 1 \<and> 0 < vsync_count u")
    case True
    have "pulses (w\<lparr>vsync_count := n\<rparr>) = pulses w" "pulses (w\<lparr>vsync_boost := n\<rparr>) = pulses w" for w :: "'b power_scheme" and n
      by (simp_all add: pulses_def)
    with True boost pulse_written [OF assms(1), of u] show ?thesis
      by (simp add: vsync_pulse_def spent_def Let_def) (simp add: governor_of_def)
  next
    case False
    then show ?thesis by (auto simp: vsync_pulse_def spent_def governor_of_def)
  qed
  moreover have "pulses u = pulses s" by (simp add: u_def trigger_frame)
  moreover have "exceeds 30000 (sint now) (g_last (governor_of s)) quiet"
    using measured(2) [of now "curr_time s"] by (simp add: quiet_def governor_of_def)
  ultimately show ?thesis using assms(3) step g by (cases h) (auto simp: hint_answer_def now_def)
qed

lemma step_stamped:
  assumes "stamped s" shows "stamped (power_step P h s)"
proof -
  have "prev_time (power_step P h s) = curr_time (power_step P h s)"
    using assms
    by (cases "fst h") (simp_all add: stamped_def power_step_def intel_power_hint_def interaction_exec vsync_exec
        vsync_pulse_def vsync_trigger_def Let_def)
  with power_inv_step [of s P h] assms show ?thesis by (simp add: stamped_def)
qed

text \<open>The counter of short intervals is not negative and grows by at most one with each hint.\<close>

lemma step_counter:
  assumes "0 \<le> sint (consecutive_touch_int s)" "sint (consecutive_touch_int s) < 2 ^ 31 - 1"
  shows "0 \<le> sint (consecutive_touch_int (power_step P h s)) \<and>
    sint (consecutive_touch_int (power_step P h s)) \<le> sint (consecutive_touch_int s) + 1"
proof -
  have inc: "sint (consecutive_touch_int s + 1) = sint (consecutive_touch_int s) + 1"
    unfolding sint_word_ariths using assms by (subst signed_take_bit_int_eq_self) auto
  have touch: "consecutive_touch_int (touch_update d u) = (if d < SHORT_TOUCH_TIME then consecutive_touch_int u + 1
      else if LONG_TOUCH_TIME < d then 0 else consecutive_touch_int u)" for d and u :: "'a power_scheme"
    by (simp add: touch_update_def classify_interval_def simple_touch_def scrolling_def)
  show ?thesis
  proof (cases "fst h")
    case POWER_HINT_INTERACTION
    with inc assms show ?thesis by (simp add: power_step_def intel_power_hint_def interaction_exec touch Let_def)
  next
    case POWER_HINT_VSYNC
    then show ?thesis
      using assms by (simp add: power_step_def intel_power_hint_def vsync_exec vsync_pulse_def trigger_frame Let_def)
  qed (use assms in \<open>simp add: power_step_def intel_power_hint_def\<close>)
qed

section \<open>Every sequence of hints\<close>

definition sound :: "'a power_scheme \<Rightarrow> bool" where
  "sound s \<longleftrightarrow> stamped s \<and> 0 \<le> sint (consecutive_touch_int s)"

interpretation gov: simulation "hint_guard P" "power_step P" "\<lambda>s. px_works P \<and> s = power_start"
    "\<lambda>s. px_works P \<and> sound s" "hint_answer P" governor_spec governor_of
proof (unfold_locales, goal_cases)
  case (1 s)
  then show ?case by (simp add: sound_def stamped_def power_inv_def power_start_def VSYNC_BOOST_COUNT_def)
next
  case (2 s h)
  then show ?case using step_stamped [of s P h] step_counter [of s P h] by (simp add: sound_def hint_guard_def)
next
  case (3 s h)
  show ?case
  proof (cases "fst h")
    case POWER_HINT_VSYNC
    with 3 show ?thesis by (auto simp: sound_def intro: vsync_simulated)
  next
    case POWER_HINT_INTERACTION
    with 3 show ?thesis by (auto simp: sound_def hint_guard_def intro: touch_simulated)
  next
    case (POWER_HINT_OTHER n)
    then show ?thesis by (cases h) (simp add: hint_answer_def power_step_def intel_power_hint_def)
  qed
qed

lemma hints_allowed:
  "0 \<le> sint (consecutive_touch_int s) \<Longrightarrow> sint (consecutive_touch_int s) + int (length hints) < 2 ^ 31 \<Longrightarrow>
     allowed_run (hint_guard P) (power_step P) hints s"
proof (induction hints arbitrary: s)
  case (Cons h hs)
  then have "sint (consecutive_touch_int s) < 2 ^ 31 - 1" by simp
  with step_counter [OF Cons.prems(1) this, of P h] Cons.IH [of "power_step P h s"] Cons.prems(2) show ?case
    by (simp add: hint_guard_def)
qed simp

text \<open>At most one write for each routine call, on any kernel.\<close>

lemma write_times: "pulses (exec (sysfs_write P p v) s) \<le> Suc (pulses s)"
  by (simp add: pulses_def exec_def sysfs_write_def power_sys_defs split: sum.split option.split)

definition touches :: "(power_hint \<times> int) list \<Rightarrow> nat" where
  "touches hints = length (filter (\<lambda>h. fst h = POWER_HINT_INTERACTION) hints)"

text \<open>Pulses written, pulses left, and the four a muted scroll may earn: a touch adds at most four, a vsync hint none.\<close>

definition credit :: "'a power_scheme \<Rightarrow> int" where
  "credit s = int (pulses s) + vsync_count s + 4 * touchboost_disable s"

lemma credit_step:
  assumes "power_inv s"
  shows "credit (power_step P h s) \<le> credit s + (if fst h = POWER_HINT_INTERACTION then 4 else 0)"
proof (cases "fst h")
  case POWER_HINT_INTERACTION
  define t where "t = touch_update (elapsed_ms (px_clock P (hist s)) (prev_time s))
    (s\<lparr>hist := EvClock (px_clock P (hist s)) # hist s, curr_time := px_clock P (hist s), prev_time := px_clock P (hist s)\<rparr>)"
  have "pulses t = pulses s" by (simp add: t_def) (simp add: pulses_def)
  moreover have "vsync_count t \<le> vsync_count s" "touchboost_disable t \<in> {0, 1}"
    using assms by (auto simp: t_def touch_update_def classify_interval_def simple_touch_def scrolling_def power_inv_def)
  moreover have "power_step P h s = (if touchboost_disable t = 0 then exec (sysfs_write P TOUCHBOOST_PULSE_SYSFS ''1'') t else t)"
    using POWER_HINT_INTERACTION by (simp add: power_step_def intel_power_hint_def interaction_exec Let_def t_def)
  ultimately show ?thesis
    using write_times [of P TOUCHBOOST_PULSE_SYSFS "''1''" t] assms POWER_HINT_INTERACTION
    by (auto simp: credit_def power_inv_def)
next
  case POWER_HINT_VSYNC
  have "credit (vsync_trigger P s) \<le> credit s"
    using assms by (auto simp: credit_def trigger_frame) (auto simp: vsync_trigger_def power_inv_def VSYNC_BOOST_COUNT_def Let_def)
  moreover have "credit (vsync_pulse P d u) \<le> credit u" for d and u :: "'a power_scheme"
    using write_times [of P TOUCHBOOST_PULSE_SYSFS "''1''" u] by (auto simp: vsync_pulse_def credit_def pulses_def Let_def)
  ultimately show ?thesis
    using POWER_HINT_VSYNC by (auto simp: power_step_def intel_power_hint_def vsync_exec intro: order_trans)
qed (simp add: power_step_def intel_power_hint_def)

lemma credit_run:
  "power_inv s \<Longrightarrow> credit (fold (power_step P) hints s) \<le> credit s + 4 * int (touches hints)"
proof (induction hints arbitrary: s)
  case (Cons h hs)
  have "credit (fold (power_step P) hs (power_step P h s)) \<le> credit (power_step P h s) + 4 * int (touches hs)"
    by (rule Cons.IH [OF power_inv_step [OF Cons.prems]])
  with credit_step [OF Cons.prems, of P h] show ?case by (auto simp: touches_def split: if_splits)
qed (simp add: touches_def)

definition idle :: governor where
  "idle = \<lparr>g_last = 0, g_short = 0, g_muted = False, g_budget = 0\<rparr>"

section \<open>Properties\<close>

text \<open>
  C9. The power module implements the governor of \<open>governor_spec\<close>: on a kernel whose
  calls succeed, any fewer than \<open>2^31\<close> hints, whatever the clock reads, write the pulses the
  specification allows and leave the state it allows. Intervals are compared exactly in
  the first \<open>2^24\<close> microseconds of the clock, and to 256 microseconds ever after.
\<close>

theorem power_refines_governor:
  assumes "px_works P" "length hints < 2 ^ 31"
  shows "spec_run governor_spec (observed (power_step P) (hint_answer P) hints power_start) idle
    (governor_of (fold (power_step P) hints power_start))"
proof -
  have "px_works P \<and> sound power_start" using gov.inv_init assms(1) by blast
  moreover have "allowed_run (hint_guard P) (power_step P) hints power_start"
    using assms(2) by (intro hints_allowed) (simp_all add: power_start_def)
  moreover have "governor_of power_start = idle" by (simp add: governor_of_def power_start_def idle_def)
  ultimately show ?thesis by (metis gov.run_simulates)
qed

theorem power_refines_governor_witness:
  "spec_run governor_spec (observed (power_step (demo_posix 500000)) (hint_answer (demo_posix 500000))
     [(POWER_HINT_INTERACTION, 0), (POWER_HINT_VSYNC, 1)] power_start) idle
     (governor_of (fold (power_step (demo_posix 500000)) [(POWER_HINT_INTERACTION, 0), (POWER_HINT_VSYNC, 1)] power_start))"
  by (rule power_refines_governor [OF demo_posix_works]) simp

text \<open>
  C22. Boosts are paid for by touches: whatever the clock and the kernel do and whatever the
  sequence of hints, the module writes the pulse at most four times for each touch.
\<close>

theorem pulses_bounded_by_touches:
  "times_written (hist (fold (power_step P) hints power_start)) TOUCHBOOST_PULSE_SYSFS \<le> 4 * touches hints"
proof -
  have "power_inv power_start" by (simp add: power_inv_def power_start_def VSYNC_BOOST_COUNT_def)
  note inv = ph.run_inv [OF this, of P hints] and credit_run [OF this, of P hints]
  moreover have "credit power_start = 0" by (simp add: credit_def pulses_def power_start_def)
  ultimately show ?thesis by (auto simp: credit_def pulses_def power_inv_def)
qed

end
