(* ===== verification/CameraMetadata.thy ===== *)
theory CameraMetadata
  imports Prelude
begin

text \<open>
  The metadata wrapper, \<^verbatim>\<open>shim/camera/CameraMetadata.cpp\<close> without its parcel code.
  Many objects live in one heap of \<^verbatim>\<open>camera_metadata_t\<close> buffers. An object is a number;
  its fields are \<^verbatim>\<open>mBuffer\<close> (an address, 0 for null) and \<^verbatim>\<open>mLocked\<close>. The C library
  \<^verbatim>\<open>libcamera_metadata\<close>, which is not part of this repository, is a parameter: a record of
  functions on the contents of buffers. The flag \<open>bad\<close> records a use of an address that is
  no live buffer (use after free, double free); it is never reset.
\<close>

section \<open>The library, a parameter\<close>

type_synonym addr = u32
type_synonym bytes = "u8 list"

datatype data_ptr = Uninitialised | NullData | DataAt bytes

record camera_metadata_entry =
  e_index :: "u32 option"
  e_count :: u32
  e_data :: data_ptr

datatype cm_type = TYPE_BYTE | TYPE_INT32 | TYPE_FLOAT | TYPE_INT64 | TYPE_DOUBLE | TYPE_RATIONAL

text \<open>
  Each field is the C function of the same name. A pointer argument is the contents it points
  to, \<open>None\<close> for the null pointer. A function that changes a buffer gives its new contents
  with the status; one that allocates picks an address, or \<open>None\<close> for no memory.
\<close>

record 'm camlib =
  cl_allocate :: "(addr \<rightharpoonup> 'm) \<Rightarrow> u32 \<Rightarrow> u32 \<Rightarrow> (addr \<times> 'm) option"
  cl_clone :: "(addr \<rightharpoonup> 'm) \<Rightarrow> 'm option \<Rightarrow> (addr \<times> 'm) option"
  cl_checked_copy :: "(addr \<rightharpoonup> 'm) \<Rightarrow> bytes \<Rightarrow> (addr \<times> 'm) option"
  cl_entry_count :: "'m option \<Rightarrow> u32"
  cl_entry_capacity :: "'m option \<Rightarrow> u32"
  cl_data_count :: "'m option \<Rightarrow> u32"
  cl_data_capacity :: "'m option \<Rightarrow> u32"
  cl_size :: "'m option \<Rightarrow> u32"
  cl_compact_size :: "'m option \<Rightarrow> u32"
  cl_alignment :: u32
  cl_append :: "'m option \<Rightarrow> 'm option \<Rightarrow> int \<times> 'm"
  cl_sort :: "'m option \<Rightarrow> int \<times> 'm"
  cl_find :: "'m option \<Rightarrow> u32 \<Rightarrow> int \<times> camera_metadata_entry"
  cl_add :: "'m option \<Rightarrow> u32 \<Rightarrow> bytes \<Rightarrow> u32 \<Rightarrow> int \<times> 'm"
  cl_update :: "'m option \<Rightarrow> u32 option \<Rightarrow> bytes \<Rightarrow> u32 \<Rightarrow> int \<times> 'm"
  cl_delete :: "'m option \<Rightarrow> u32 option \<Rightarrow> int \<times> 'm"
  cl_copy :: "'m option \<Rightarrow> bytes"
  cl_tag_type :: "u32 \<Rightarrow> int"
  cl_type_code :: "cm_type \<Rightarrow> int"
  cl_data_size :: "int \<Rightarrow> u32 \<Rightarrow> u32"

section \<open>Objects and heap\<close>

record 'm cam =
  cells :: "addr \<rightharpoonup> 'm"
  bad :: bool
  mBuffer :: "nat \<Rightarrow> addr"
  mLocked :: "nat \<Rightarrow> bool"

definition deref :: "addr \<Rightarrow> ('m, 'a) cam_scheme \<Rightarrow> 'm option" where
  "deref p w = (if p = 0 then None else cells w p)"

definition touch :: "addr \<Rightarrow> (('m, 'a) cam_scheme, unit) state" where
  "touch p = modify (\<lambda>w. if p \<noteq> 0 \<and> cells w p = None then w\<lparr>bad := True\<rparr> else w)"

definition lib_read :: "addr \<Rightarrow> ('m option \<Rightarrow> 'r) \<Rightarrow> (('m, 'a) cam_scheme, 'r) state" where
  "lib_read p f = do { touch p; gets (\<lambda>w. f (deref p w)) }"

definition lib_write :: "addr \<Rightarrow> ('m option \<Rightarrow> int \<times> 'm) \<Rightarrow> (('m, 'a) cam_scheme, int) state" where
  "lib_write p f = do {
     touch p;
     r \<leftarrow> gets (\<lambda>w. f (deref p w));
     modify (\<lambda>w. if deref p w = None then w else w\<lparr>cells := (cells w)(p \<mapsto> snd r)\<rparr>);
     State_Monad.return (fst r)
   }"

text \<open>An allocating call: the new buffer is entered in the heap; the result is its address or null.\<close>

definition lib_new :: "((addr \<rightharpoonup> 'm) \<Rightarrow> (addr \<times> 'm) option) \<Rightarrow> (('m, 'a) cam_scheme, addr) state" where
  "lib_new f = do {
     r \<leftarrow> gets (\<lambda>w. f (cells w));
     (case r of
        None \<Rightarrow> State_Monad.return 0
      | Some (p, m) \<Rightarrow> do { modify (\<lambda>w. w\<lparr>cells := (cells w)(p \<mapsto> m)\<rparr>); State_Monad.return p })
   }"

definition lib_free :: "addr \<Rightarrow> (('m, 'a) cam_scheme, unit) state" where
  "lib_free p = do { touch p; modify (\<lambda>w. if p = 0 then w else w\<lparr>cells := (cells w)(p := None)\<rparr>) }"

definition setBuffer :: "nat \<Rightarrow> addr \<Rightarrow> (('m, 'a) cam_scheme, unit) state" where
  "setBuffer i p = modify (\<lambda>w. w\<lparr>mBuffer := (mBuffer w)(i := p)\<rparr>)"

definition setLocked :: "nat \<Rightarrow> bool \<Rightarrow> (('m, 'a) cam_scheme, unit) state" where
  "setLocked i b = modify (\<lambda>w. w\<lparr>mLocked := (mLocked w)(i := b)\<rparr>)"

section \<open>Ownership of the buffer\<close>

definition clear :: "nat \<Rightarrow> (('m, 'a) cam_scheme, unit) state" where
  "clear i = do {
     locked \<leftarrow> gets (\<lambda>w. mLocked w i);
     if locked then State_Monad.return ()
     else do {
       b \<leftarrow> gets (\<lambda>w. mBuffer w i);
       whenM (b \<noteq> 0) (do { lib_free b; setBuffer i 0 })
     }
   }"

definition release :: "nat \<Rightarrow> (('m, 'a) cam_scheme, addr) state" where
  "release i = do {
     locked \<leftarrow> gets (\<lambda>w. mLocked w i);
     if locked then State_Monad.return 0
     else do {
       released \<leftarrow> gets (\<lambda>w. mBuffer w i);
       setBuffer i 0;
       State_Monad.return released
     }
   }"

text \<open>\<^verbatim>\<open>acquire\<close> of a raw buffer; the structure check at its end only logs.\<close>

definition acquire :: "nat \<Rightarrow> addr \<Rightarrow> (('m, 'a) cam_scheme, unit) state" where
  "acquire i buffer = do {
     locked \<leftarrow> gets (\<lambda>w. mLocked w i);
     if locked then State_Monad.return ()
     else do {
       clear i;
       setBuffer i buffer;
       touch buffer
     }
   }"

definition acquire_object :: "nat \<Rightarrow> nat \<Rightarrow> (('m, 'a) cam_scheme, unit) state" where
  "acquire_object i j = do {
     locked \<leftarrow> gets (\<lambda>w. mLocked w i);
     if locked then State_Monad.return ()
     else do { b \<leftarrow> release j; acquire i b }
   }"

definition assign :: "'m camlib \<Rightarrow> nat \<Rightarrow> addr \<Rightarrow> (('m, 'a) cam_scheme, unit) state" where
  "assign L i buffer = do {
     locked \<leftarrow> gets (\<lambda>w. mLocked w i);
     if locked then State_Monad.return ()
     else do {
       b \<leftarrow> gets (\<lambda>w. mBuffer w i);
       whenM (buffer \<noteq> b) (do {
         src \<leftarrow> lib_read buffer id;
         newBuffer \<leftarrow> lib_new (\<lambda>h. cl_clone L h src);
         clear i;
         setBuffer i newBuffer
       })
     }
   }"

definition assign_object :: "'m camlib \<Rightarrow> nat \<Rightarrow> nat \<Rightarrow> (('m, 'a) cam_scheme, unit) state" where
  "assign_object L i j = do { b \<leftarrow> gets (\<lambda>w. mBuffer w j); assign L i b }"

definition construct_empty :: "nat \<Rightarrow> (('m, 'a) cam_scheme, unit) state" where
  "construct_empty i = do { setBuffer i 0; setLocked i False }"

definition construct_capacity :: "'m camlib \<Rightarrow> nat \<Rightarrow> u32 \<Rightarrow> u32 \<Rightarrow> (('m, 'a) cam_scheme, unit) state" where
  "construct_capacity L i entryCapacity dataCapacity = do {
     setLocked i False;
     b \<leftarrow> lib_new (\<lambda>h. cl_allocate L h entryCapacity dataCapacity);
     setBuffer i b
   }"

definition construct_copy :: "'m camlib \<Rightarrow> nat \<Rightarrow> nat \<Rightarrow> (('m, 'a) cam_scheme, unit) state" where
  "construct_copy L i j = do {
     setLocked i False;
     other \<leftarrow> gets (\<lambda>w. mBuffer w j);
     src \<leftarrow> lib_read other id;
     b \<leftarrow> lib_new (\<lambda>h. cl_clone L h src);
     setBuffer i b
   }"

definition construct_raw :: "nat \<Rightarrow> addr \<Rightarrow> (('m, 'a) cam_scheme, unit) state" where
  "construct_raw i buffer = do { setBuffer i 0; setLocked i False; acquire i buffer }"

definition destruct :: "nat \<Rightarrow> (('m, 'a) cam_scheme, unit) state" where
  "destruct i = do { setLocked i False; clear i }"

definition getAndLock :: "nat \<Rightarrow> (('m, 'a) cam_scheme, addr) state" where
  "getAndLock i = do { setLocked i True; gets (\<lambda>w. mBuffer w i) }"

definition unlock :: "nat \<Rightarrow> addr \<Rightarrow> (('m, 'a) cam_scheme, int) state" where
  "unlock i buffer = do {
     locked \<leftarrow> gets (\<lambda>w. mLocked w i);
     b \<leftarrow> gets (\<lambda>w. mBuffer w i);
     if \<not> locked then State_Monad.return INVALID_OPERATION
     else if buffer \<noteq> b then State_Monad.return BAD_VALUE
     else do { setLocked i False; State_Monad.return OK }
   }"

definition swap :: "nat \<Rightarrow> nat \<Rightarrow> (('m, 'a) cam_scheme, unit) state" where
  "swap i j = do {
     locked \<leftarrow> gets (\<lambda>w. mLocked w i);
     otherLocked \<leftarrow> gets (\<lambda>w. mLocked w j);
     if locked then State_Monad.return ()
     else if otherLocked then State_Monad.return ()
     else do {
       thisBuf \<leftarrow> gets (\<lambda>w. mBuffer w i);
       otherBuf \<leftarrow> gets (\<lambda>w. mBuffer w j);
       setBuffer j thisBuf;
       setBuffer i otherBuf
     }
   }"

section \<open>Contents\<close>

definition entryCount :: "'m camlib \<Rightarrow> nat \<Rightarrow> (('m, 'a) cam_scheme, u32) state" where
  "entryCount L i = do {
     b \<leftarrow> gets (\<lambda>w. mBuffer w i);
     if b = 0 then State_Monad.return 0 else lib_read b (cl_entry_count L)
   }"

definition isEmpty :: "'m camlib \<Rightarrow> nat \<Rightarrow> (('m, 'a) cam_scheme, bool) state" where
  "isEmpty L i = do { n \<leftarrow> entryCount L i; State_Monad.return (n = 0) }"

definition resizeIfNeeded :: "'m camlib \<Rightarrow> nat \<Rightarrow> u32 \<Rightarrow> u32 \<Rightarrow> (('m, 'a) cam_scheme, int) state" where
  "resizeIfNeeded L i extraEntries extraData = do {
     b \<leftarrow> gets (\<lambda>w. mBuffer w i);
     if b = 0 then do {
       n \<leftarrow> lib_new (\<lambda>h. cl_allocate L h (extraEntries * 2) (extraData * 2));
       setBuffer i n;
       State_Monad.return (if n = 0 then NO_MEMORY else OK)
     } else do {
       currentEntryCount \<leftarrow> lib_read b (cl_entry_count L);
       currentEntryCap \<leftarrow> lib_read b (cl_entry_capacity L);
       currentDataCount \<leftarrow> lib_read b (cl_data_count L);
       currentDataCap \<leftarrow> lib_read b (cl_data_capacity L);
       (let e = currentEntryCount + extraEntries;
            newEntryCount = (if currentEntryCap < e then e * 2 else currentEntryCap);
            d = currentDataCount + extraData;
            newDataCount = (if currentDataCap < d then d * 2 else currentDataCap)
        in if currentEntryCap < newEntryCount \<or> currentDataCap < newDataCount then do {
             n \<leftarrow> lib_new (\<lambda>h. cl_allocate L h newEntryCount newDataCount);
             setBuffer i n;
             if n = 0 then State_Monad.return NO_MEMORY
             else do {
               old \<leftarrow> lib_read b id;
               _ \<leftarrow> lib_write n (\<lambda>m. cl_append L m old);
               lib_free b;
               State_Monad.return OK
             }
           } else State_Monad.return OK)
     }
   }"

definition append :: "'m camlib \<Rightarrow> nat \<Rightarrow> addr \<Rightarrow> (('m, 'a) cam_scheme, int) state" where
  "append L i other = do {
     locked \<leftarrow> gets (\<lambda>w. mLocked w i);
     if locked then State_Monad.return INVALID_OPERATION
     else do {
       extraEntries \<leftarrow> lib_read other (cl_entry_count L);
       extraData \<leftarrow> lib_read other (cl_data_count L);
       _ \<leftarrow> resizeIfNeeded L i extraEntries extraData;
       src \<leftarrow> lib_read other id;
       b \<leftarrow> gets (\<lambda>w. mBuffer w i);
       lib_write b (\<lambda>m. cl_append L m src)
     }
   }"

definition append_object :: "'m camlib \<Rightarrow> nat \<Rightarrow> nat \<Rightarrow> (('m, 'a) cam_scheme, int) state" where
  "append_object L i j = do { b \<leftarrow> gets (\<lambda>w. mBuffer w j); append L i b }"

definition sort_metadata :: "'m camlib \<Rightarrow> nat \<Rightarrow> (('m, 'a) cam_scheme, int) state" where
  "sort_metadata L i = do {
     locked \<leftarrow> gets (\<lambda>w. mLocked w i);
     if locked then State_Monad.return INVALID_OPERATION
     else do { b \<leftarrow> gets (\<lambda>w. mBuffer w i); lib_write b (cl_sort L) }
   }"

definition checkType :: "'m camlib \<Rightarrow> u32 \<Rightarrow> cm_type \<Rightarrow> int" where
  "checkType L tag expectedType =
     (let tagType = cl_tag_type L tag in
      if tagType = - 1 then INVALID_OPERATION
      else if tagType \<noteq> cl_type_code L expectedType then INVALID_OPERATION
      else OK)"

text \<open>
  The data of an update: its address, the bytes there when the call is made, and the element
  count. The library call that stores the data reads it through the address. If the data lies in
  the object's own buffer (at \<open>bufAddr\<close>, of size \<open>bufferSize\<close> when the call was made), that
  read is an access to this buffer, which \<^verbatim>\<open>resizeIfNeeded\<close> may have freed in the
  meantime; data elsewhere is the caller's and is not freed by the call.
\<close>

definition data_home :: "addr \<Rightarrow> addr \<Rightarrow> u32 \<Rightarrow> addr" where
  "data_home dataAddr bufAddr bufferSize =
     (if bufAddr \<le> dataAddr \<and> dataAddr < bufAddr + bufferSize then bufAddr else 0)"

definition updateImpl :: "'m camlib \<Rightarrow> nat \<Rightarrow> u32 \<Rightarrow> addr \<Rightarrow> bytes \<Rightarrow> u32 \<Rightarrow> (('m, 'a) cam_scheme, int) state" where
  "updateImpl L i tag dataAddr bs data_count = do {
     locked \<leftarrow> gets (\<lambda>w. mLocked w i);
     if locked then State_Monad.return INVALID_OPERATION
     else if cl_tag_type L tag = - 1 then State_Monad.return BAD_VALUE
     else do {
       bufAddr \<leftarrow> gets (\<lambda>w. mBuffer w i);
       bufferSize \<leftarrow> lib_read bufAddr (cl_size L);
       if bufAddr < dataAddr \<and> dataAddr < bufAddr + bufferSize then State_Monad.return INVALID_OPERATION
       else do {
         res \<leftarrow> resizeIfNeeded L i 1 (cl_data_size L (cl_tag_type L tag) data_count);
         if res = OK then do {
           b \<leftarrow> gets (\<lambda>w. mBuffer w i);
           (found, entry) \<leftarrow> lib_read b (\<lambda>m. cl_find L m tag);
           if found = NAME_NOT_FOUND then do {
             touch (data_home dataAddr bufAddr bufferSize);
             lib_write b (\<lambda>m. cl_add L m tag bs data_count)
           } else if found = OK then do {
             touch (data_home dataAddr bufAddr bufferSize);
             lib_write b (\<lambda>m. cl_update L m (e_index entry) bs data_count)
           } else State_Monad.return found
         } else State_Monad.return res
       }
     }
   }"

text \<open>
  The six typed overloads of \<^verbatim>\<open>update\<close> differ in the type they check; the one for strings
  stores the terminator too.
\<close>

definition update :: "'m camlib \<Rightarrow> cm_type \<Rightarrow> nat \<Rightarrow> u32 \<Rightarrow> addr \<Rightarrow> bytes \<Rightarrow> u32 \<Rightarrow> (('m, 'a) cam_scheme, int) state" where
  "update L ty i tag dataAddr bs data_count = do {
     locked \<leftarrow> gets (\<lambda>w. mLocked w i);
     if locked then State_Monad.return INVALID_OPERATION
     else if checkType L tag ty \<noteq> OK then State_Monad.return (checkType L tag ty)
     else updateImpl L i tag dataAddr bs data_count
   }"

definition update_string :: "'m camlib \<Rightarrow> nat \<Rightarrow> u32 \<Rightarrow> addr \<Rightarrow> bytes \<Rightarrow> (('m, 'a) cam_scheme, int) state" where
  "update_string L i tag strAddr str = do {
     locked \<leftarrow> gets (\<lambda>w. mLocked w i);
     if locked then State_Monad.return INVALID_OPERATION
     else if checkType L tag TYPE_BYTE \<noteq> OK then State_Monad.return (checkType L tag TYPE_BYTE)
     else updateImpl L i tag strAddr (str @ [0]) (word_of_nat (length str) + 1)
   }"

text \<open>
  The template of the header for a vector passes its array and its size; the elements are given
  as their bytes.
\<close>

definition update_vector :: "'m camlib \<Rightarrow> cm_type \<Rightarrow> nat \<Rightarrow> u32 \<Rightarrow> addr \<Rightarrow> bytes list \<Rightarrow> (('m, 'a) cam_scheme, int) state" where
  "update_vector L ty i tag dataAddr elems = update L ty i tag dataAddr (concat elems) (word_of_nat (length elems))"

definition metadata_exists :: "'m camlib \<Rightarrow> nat \<Rightarrow> u32 \<Rightarrow> (('m, 'a) cam_scheme, bool) state" where
  "metadata_exists L i tag = do {
     b \<leftarrow> gets (\<lambda>w. mBuffer w i);
     (res, _) \<leftarrow> lib_read b (\<lambda>m. cl_find L m tag);
     State_Monad.return (res = 0)
   }"

definition find_const :: "'m camlib \<Rightarrow> nat \<Rightarrow> u32 \<Rightarrow> (('m, 'a) cam_scheme, camera_metadata_entry) state" where
  "find_const L i tag = do {
     b \<leftarrow> gets (\<lambda>w. mBuffer w i);
     (res, entry) \<leftarrow> lib_read b (\<lambda>m. cl_find L m tag);
     State_Monad.return (if res \<noteq> OK then entry\<lparr>e_count := 0, e_data := NullData\<rparr> else entry)
   }"

definition find_entry :: "'m camlib \<Rightarrow> nat \<Rightarrow> u32 \<Rightarrow> (('m, 'a) cam_scheme, camera_metadata_entry) state" where
  "find_entry L i tag = do {
     locked \<leftarrow> gets (\<lambda>w. mLocked w i);
     if locked then State_Monad.return \<lparr>e_index = None, e_count = 0, e_data = Uninitialised\<rparr>
     else find_const L i tag
   }"

definition erase :: "'m camlib \<Rightarrow> nat \<Rightarrow> u32 \<Rightarrow> (('m, 'a) cam_scheme, int) state" where
  "erase L i tag = do {
     locked \<leftarrow> gets (\<lambda>w. mLocked w i);
     if locked then State_Monad.return INVALID_OPERATION
     else do {
       b \<leftarrow> gets (\<lambda>w. mBuffer w i);
       (res, entry) \<leftarrow> lib_read b (\<lambda>m. cl_find L m tag);
       if res = NAME_NOT_FOUND then State_Monad.return OK
       else if res \<noteq> OK then State_Monad.return res
       else lib_write b (\<lambda>m. cl_delete L m (e_index entry))
     }
   }"

definition dump :: "nat \<Rightarrow> (('m, 'a) cam_scheme, unit) state" where
  "dump i = do { b \<leftarrow> gets (\<lambda>w. mBuffer w i); touch b }"

section \<open>Effects of the primitives\<close>

definition valid :: "addr \<Rightarrow> ('m, 'a) cam_scheme \<Rightarrow> bool" where
  "valid p w \<longleftrightarrow> p = 0 \<or> cells w p \<noteq> None"

lemma valid_null [simp]: "valid 0 w"
  by (simp add: valid_def)

lemma touch_valid [simp]: "valid p w \<Longrightarrow> exec (touch p) w = w"
  by (auto simp: touch_def valid_def)

lemma touch_frame [simp]:
  "cells (exec (touch p) w) = cells w" "mBuffer (exec (touch p) w) = mBuffer w" "mLocked (exec (touch p) w) = mLocked w"
  "valid q (exec (touch p) w) = valid q w" "deref q (exec (touch p) w) = deref q w"
  by (simp_all add: touch_def valid_def deref_def)

lemma lib_read_valid [simp]:
  "valid p w \<Longrightarrow> exec (lib_read p f) w = w" "result (lib_read p f) w = f (deref p w)"
  by (auto simp: lib_read_def exec_bind result_bind)

lemma lib_read_run: "valid p w \<Longrightarrow> run_state (lib_read p f) w = (f (deref p w), w)"
  by (simp add: run_state_split)

lemma lib_write_valid [simp]:
  "valid p w \<Longrightarrow> exec (lib_write p f) w =
     (if p = 0 then w else w\<lparr>cells := (cells w)(p \<mapsto> snd (f (cells w p)))\<rparr>)"
  "valid p w \<Longrightarrow> result (lib_write p f) w = fst (f (deref p w))"
  by (auto simp: lib_write_def exec_bind result_bind deref_def valid_def)

lemma lib_new_exec [simp]:
  "exec (lib_new f) w = (case f (cells w) of None \<Rightarrow> w | Some (p, m) \<Rightarrow> w\<lparr>cells := (cells w)(p \<mapsto> m)\<rparr>)"
  "result (lib_new f) w = (case f (cells w) of None \<Rightarrow> 0 | Some (p, m) \<Rightarrow> p)"
  by (auto simp: lib_new_def exec_def result_def split: option.split)

lemma lib_free_valid [simp]:
  "valid p w \<Longrightarrow> exec (lib_free p) w = (if p = 0 then w else w\<lparr>cells := (cells w)(p := None)\<rparr>)"
  by (auto simp: lib_free_def exec_bind)

lemma set_fields [simp]:
  "exec (setBuffer i p) w = w\<lparr>mBuffer := (mBuffer w)(i := p)\<rparr>"
  "exec (setLocked i b) w = w\<lparr>mLocked := (mLocked w)(i := b)\<rparr>"
  by (simp_all add: setBuffer_def setLocked_def)

section \<open>The client\<close>

text \<open>
  Who owns a buffer is written in two ghost fields: the buffers the client holds (released
  to it, not yet given back) and the objects that were constructed and not yet destroyed.
\<close>

record 'm client = "'m cam" +
  held :: "addr set"
  live :: "nat set"

datatype cam_event =
    NewEmpty nat | NewCapacity nat u32 u32 | NewCopy nat nat | NewRaw nat addr | Destroy nat
  | Assign nat addr | AssignObject nat nat | Lock nat | Unlock nat addr
  | Release nat | Clear nat | Acquire nat addr | AcquireObject nat nat | Swap nat nat
  | Append nat addr | AppendObject nat nat | Sort nat
  | Update cm_type nat u32 addr bytes u32 | UpdateString nat u32 addr bytes | Erase nat u32
  | EntryCount nat | Exists nat u32 | Find nat u32 | FindConst nat u32 | Dump nat

text \<open>
  The contract of a call: objects are constructed once and used while they live, a buffer that is
  given away is one the client holds, one that is read is live, no object is appended to itself,
  and the data of an update does not start exactly where the object's own buffer starts (data
  further inside it is allowed: the code refuses it).
\<close>

fun cam_guard :: "cam_event \<Rightarrow> ('m, 'a) client_scheme \<Rightarrow> bool" where
  "cam_guard (NewEmpty i) w = (i \<notin> live w)"
| "cam_guard (NewCapacity i e d) w = (i \<notin> live w)"
| "cam_guard (NewCopy i j) w = (i \<notin> live w \<and> j \<in> live w)"
| "cam_guard (NewRaw i b) w = (i \<notin> live w \<and> (b = 0 \<or> b \<in> held w))"
| "cam_guard (Acquire i b) w = (i \<in> live w \<and> (b = 0 \<or> b \<in> held w))"
| "cam_guard (Assign i b) w = (i \<in> live w \<and> valid b w)"
| "cam_guard (Append i b) w = (i \<in> live w \<and> valid b w \<and> (b = 0 \<or> b \<noteq> mBuffer w i))"
| "cam_guard (AssignObject i j) w = (i \<in> live w \<and> j \<in> live w)"
| "cam_guard (AcquireObject i j) w = (i \<in> live w \<and> j \<in> live w)"
| "cam_guard (Swap i j) w = (i \<in> live w \<and> j \<in> live w)"
| "cam_guard (AppendObject i j) w = (i \<in> live w \<and> j \<in> live w \<and> i \<noteq> j)"
| "cam_guard (Destroy i) w = (i \<in> live w)"
| "cam_guard (Lock i) w = (i \<in> live w)"
| "cam_guard (Unlock i b) w = (i \<in> live w)"
| "cam_guard (Release i) w = (i \<in> live w)"
| "cam_guard (Clear i) w = (i \<in> live w)"
| "cam_guard (Sort i) w = (i \<in> live w)"
| "cam_guard (Update ty i tag a bs n) w = (i \<in> live w \<and> (mBuffer w i = 0 \<or> a \<noteq> mBuffer w i))"
| "cam_guard (UpdateString i tag a bs) w = (i \<in> live w \<and> (mBuffer w i = 0 \<or> a \<noteq> mBuffer w i))"
| "cam_guard (Erase i tag) w = (i \<in> live w)"
| "cam_guard (EntryCount i) w = (i \<in> live w)"
| "cam_guard (Exists i tag) w = (i \<in> live w)"
| "cam_guard (Find i tag) w = (i \<in> live w)"
| "cam_guard (FindConst i tag) w = (i \<in> live w)"
| "cam_guard (Dump i) w = (i \<in> live w)"

fun cam_step :: "'m camlib \<Rightarrow> cam_event \<Rightarrow> ('m, 'a) client_scheme \<Rightarrow> ('m, 'a) client_scheme" where
  "cam_step L (NewEmpty i) w = (exec (construct_empty i) w)\<lparr>live := insert i (live w)\<rparr>"
| "cam_step L (NewCapacity i e d) w = (exec (construct_capacity L i e d) w)\<lparr>live := insert i (live w)\<rparr>"
| "cam_step L (NewCopy i j) w = (exec (construct_copy L i j) w)\<lparr>live := insert i (live w)\<rparr>"
| "cam_step L (NewRaw i b) w = (exec (construct_raw i b) w)\<lparr>live := insert i (live w), held := held w - {b}\<rparr>"
| "cam_step L (Destroy i) w = (exec (destruct i) w)\<lparr>live := live w - {i}\<rparr>"
| "cam_step L (Assign i b) w = exec (assign L i b) w"
| "cam_step L (AssignObject i j) w = exec (assign_object L i j) w"
| "cam_step L (Lock i) w = exec (getAndLock i) w"
| "cam_step L (Unlock i b) w = exec (unlock i b) w"
| "cam_step L (Release i) w = (exec (release i) w)\<lparr>held := (held w \<union> {result (release i) w}) - {0}\<rparr>"
| "cam_step L (Clear i) w = exec (clear i) w"
| "cam_step L (Acquire i b) w = (exec (acquire i b) w)\<lparr>held := if mLocked w i then held w else held w - {b}\<rparr>"
| "cam_step L (AcquireObject i j) w = exec (acquire_object i j) w"
| "cam_step L (Swap i j) w = exec (swap i j) w"
| "cam_step L (Append i b) w = exec (append L i b) w"
| "cam_step L (AppendObject i j) w = exec (append_object L i j) w"
| "cam_step L (Sort i) w = exec (sort_metadata L i) w"
| "cam_step L (Update ty i tag a bs n) w = exec (update L ty i tag a bs n) w"
| "cam_step L (UpdateString i tag a bs) w = exec (update_string L i tag a bs) w"
| "cam_step L (Erase i tag) w = exec (erase L i tag) w"
| "cam_step L (EntryCount i) w = exec (entryCount L i) w"
| "cam_step L (Exists i tag) w = exec (metadata_exists L i tag) w"
| "cam_step L (Find i tag) w = exec (find_entry L i tag) w"
| "cam_step L (FindConst i tag) w = exec (find_const L i tag) w"
| "cam_step L (Dump i) w = exec (dump i) w"

definition cam_init :: "'m client \<Rightarrow> bool" where
  "cam_init w \<longleftrightarrow> cells w = Map.empty \<and> \<not> bad w \<and> held w = {} \<and> live w = {}"

text \<open>What the allocator promises: a new address, never null.\<close>

definition camlib_fresh :: "'m camlib \<Rightarrow> bool" where
  "camlib_fresh L \<longleftrightarrow>
     (\<forall>h e d p m. cl_allocate L h e d = Some (p, m) \<longrightarrow> p \<noteq> 0 \<and> h p = None) \<and>
     (\<forall>h src p m. cl_clone L h src = Some (p, m) \<longrightarrow> p \<noteq> 0 \<and> h p = None) \<and>
     (\<forall>h bs p m. cl_checked_copy L h bs = Some (p, m) \<longrightarrow> p \<noteq> 0 \<and> h p = None)"

section \<open>Ownership\<close>

text \<open>
  The buffers held by the client and those of the live objects are live and pairwise
  distinct; with \<open>ex\<close> they are all the buffers there are, so none has leaked. The lemmas
  are the moves from which the operations are put together.
\<close>

definition owned :: "bool \<Rightarrow> (addr \<rightharpoonup> 'm) \<Rightarrow> (nat \<Rightarrow> addr) \<Rightarrow> addr set \<Rightarrow> nat set \<Rightarrow> bool" where
  "owned ex c B H S \<longleftrightarrow> c 0 = None \<and> (\<forall>p \<in> H. c p \<noteq> None) \<and>
     (\<forall>i \<in> S. B i \<noteq> 0 \<longrightarrow> c (B i) \<noteq> None \<and> B i \<notin> H) \<and>
     (\<forall>i \<in> S. \<forall>j \<in> S. B i = B j \<longrightarrow> B i \<noteq> 0 \<longrightarrow> i = j) \<and>
     (ex \<longrightarrow> (\<forall>p. c p \<noteq> None \<longrightarrow> p \<in> H \<or> (\<exists>i \<in> S. B i = p)))"

lemma owned_free: "owned ex c B H S \<Longrightarrow> i \<in> S \<Longrightarrow> owned ex (c(B i := None)) (B(i := 0)) H S"
  by (cases "B i = 0") (auto simp: owned_def fun_upd_idem)

lemma owned_drop: "owned ex c B H S \<Longrightarrow> i \<in> S \<Longrightarrow> owned ex c (B(i := 0)) (insert (B i) H - {0}) S"
  by (auto simp: owned_def)

lemma owned_cover:
  assumes "owned ex c B H S" "B i = 0" "ex" "c p \<noteq> None"
  shows "p \<in> H \<or> (\<exists>k \<in> S. k \<noteq> i \<and> B k = p)"
proof -
  have "c 0 = None" "p \<in> H \<or> (\<exists>k \<in> S. B k = p)" using assms by (auto simp: owned_def)
  with assms(2,4) show ?thesis by metis
qed

lemma owned_take:
  assumes "owned ex c B H S" "i \<in> S" "B i = 0" "b = 0 \<or> b \<in> H"
  shows "owned ex c (B(i := b)) (H - {b}) S"
proof -
  note cover = owned_cover [OF assms(1,3)]
  have "owned False c (B(i := b)) (H - {b}) S"
    using assms by (auto simp: owned_def)
  moreover have "p \<in> H - {b} \<or> (\<exists>k \<in> S. (B(i := b)) k = p)" if "ex" "c p \<noteq> None" for p
    using cover [OF that] assms(2) by auto
  ultimately show ?thesis by (simp add: owned_def)
qed

lemma owned_alloc:
  "owned ex c B H S \<Longrightarrow> c p = None \<Longrightarrow> p \<noteq> 0 \<Longrightarrow> owned ex (c(p \<mapsto> m)) B (insert p H) S"
  by (auto simp: owned_def)

lemma owned_write: "owned ex c B H S \<Longrightarrow> c p \<noteq> None \<Longrightarrow> owned ex (c(p \<mapsto> m)) B H S"
  by (auto simp: owned_def)

lemma owned_free_held: "owned ex c B H S \<Longrightarrow> p \<in> H \<Longrightarrow> owned ex (c(p := None)) B (H - {p}) S"
  by (auto simp: owned_def)

lemma owned_new: "owned ex c B H S \<Longrightarrow> i \<notin> S \<Longrightarrow> owned ex c (B(i := 0)) H (insert i S)"
  by (auto simp: owned_def)

lemma owned_del:
  assumes "owned ex c B H S" "B i = 0"
  shows "owned ex c B H (S - {i})"
proof -
  have "owned False c B H (S - {i})" using assms by (simp add: owned_def)
  moreover have "p \<in> H \<or> (\<exists>k \<in> S - {i}. B k = p)" if "ex" "c p \<noteq> None" for p
    using owned_cover [OF assms that] by auto
  ultimately show ?thesis by (simp add: owned_def)
qed

lemma owned_leak: "owned False c B H S \<Longrightarrow> owned False c (B(i := 0)) H S"
  by (auto simp: owned_def)

lemma owned_swap:
  assumes "owned ex c B H S" "i \<in> S" "j \<in> S"
  shows "owned ex c (B(i := B j, j := B i)) H S"
proof -
  define t where "t k = (if k = i then j else if k = j then i else k)" for k
  have B: "(B(i := B j, j := B i)) = (\<lambda>k. B (t k))" by (auto simp: fun_eq_iff t_def)
  have S: "t k \<in> S" if "k \<in> S" for k using that assms by (auto simp: t_def)
  have inv: "t (t k) = k" for k by (auto simp: t_def)
  note o = assms(1) [unfolded owned_def]
  have "k = l" if "k \<in> S" "l \<in> S" "B (t k) = B (t l)" "B (t k) \<noteq> 0" for k l
    using o S [OF that(1)] S [OF that(2)] that(3,4) inv by metis
  moreover have "\<exists>k \<in> S. B (t k) = p" if "\<exists>k \<in> S. B k = p" for p
    using that S inv by metis
  ultimately show ?thesis
    using o S unfolding B owned_def by (intro conjI) (simp_all, blast)
qed

lemma owned_fill:
  assumes "owned ex c B H S" "i \<in> S" "B i = 0" "c p = None" "p \<noteq> 0"
  shows "owned ex (c(p \<mapsto> m)) (B(i := p)) H S"
proof -
  have "p \<notin> H" using assms(1,4) by (auto simp: owned_def)
  then have H: "insert p H - {p} = H" by blast
  show ?thesis
    using owned_take [OF owned_alloc [OF assms(1,4,5), where m = m], where i = i and b = p] assms(2,3) by (simp add: H)
qed

lemma owned_replace:
  assumes "owned ex c B H S" "i \<in> S" "c p = None" "p \<noteq> 0"
  shows "owned ex (c(p \<mapsto> m, B i := None)) (B(i := p)) H S"
proof -
  have "p \<notin> H" using assms(1,3) by (auto simp: owned_def)
  then have H: "insert p H - {p} = H" by blast
  show ?thesis
    using owned_take [OF owned_free [OF owned_alloc [OF assms(1,3,4), where m = m] assms(2)], where i = i and b = p] assms(2) by (simp add: H)
qed

lemma owned_move:
  assumes "owned ex c B H S" "i \<in> S" "j \<in> S" "i \<noteq> j"
  shows "owned ex (c(B i := None)) (B(j := 0, i := B j)) H S"
proof -
  have "B j \<notin> H" "0 \<notin> H" using assms(1,3) unfolding owned_def by metis+
  then have H: "insert (B j) H - {0} - {B j} = H" by blast
  have "owned ex (c((B(j := 0)) i := None)) (B(j := 0, i := 0)) (insert (B j) H - {0}) S"
    using assms by (intro owned_free owned_drop)
  from owned_take [OF this assms(2), of "B j"] assms(4) show ?thesis by (simp only: H) auto
qed

definition own_inv :: "bool \<Rightarrow> ('m, 'a) client_scheme \<Rightarrow> bool" where
  "own_inv ex w \<longleftrightarrow> \<not> bad w \<and> owned ex (cells w) (mBuffer w) (held w) (live w)"

lemma own_valid [simp]: "own_inv ex w \<Longrightarrow> i \<in> live w \<Longrightarrow> valid (mBuffer w i) w"
  by (auto simp: own_inv_def owned_def valid_def)

lemma held_valid [simp]: "own_inv ex w \<Longrightarrow> b \<in> held w \<Longrightarrow> valid b w"
  by (auto simp: own_inv_def owned_def valid_def)

lemma own_deref: "own_inv ex w \<Longrightarrow> deref b w = cells w b"
  by (auto simp: own_inv_def owned_def deref_def)

lemma held_not_buffer: "own_inv ex w \<Longrightarrow> b \<in> held w \<Longrightarrow> i \<in> live w \<Longrightarrow> mBuffer w i \<noteq> b"
  unfolding own_inv_def owned_def by metis

section \<open>The operations as state updates\<close>

lemma clear_exec:
  "valid (mBuffer w i) w \<Longrightarrow> exec (clear i) w =
     (if mLocked w i \<or> mBuffer w i = 0 then w
      else w\<lparr>cells := (cells w)(mBuffer w i := None), mBuffer := (mBuffer w)(i := 0)\<rparr>)"
  by (auto simp: clear_def exec_bind)

lemma release_exec:
  "exec (release i) w = (if mLocked w i then w else w\<lparr>mBuffer := (mBuffer w)(i := 0)\<rparr>)"
  "result (release i) w = (if mLocked w i then 0 else mBuffer w i)"
  by (auto simp: release_def exec_bind result_bind)

lemma acquire_exec:
  "valid (mBuffer w i) w \<Longrightarrow> b = 0 \<or> b \<noteq> mBuffer w i \<and> valid b w \<Longrightarrow> exec (acquire i b) w =
     (if mLocked w i then w else (exec (clear i) w)\<lparr>mBuffer := (mBuffer w)(i := b)\<rparr>)"
  by (auto simp: acquire_def exec_bind clear_exec valid_def touch_def)

text \<open>The capacities \<^verbatim>\<open>resizeIfNeeded\<close> asks for, \<open>None\<close> where there is room.\<close>

definition resize_plan :: "'m camlib \<Rightarrow> 'm option \<Rightarrow> u32 \<Rightarrow> u32 \<Rightarrow> (u32 \<times> u32) option" where
  "resize_plan L m extraEntries extraData =
     (case m of
        None \<Rightarrow> Some (extraEntries * 2, extraData * 2)
      | Some _ \<Rightarrow>
          (let e = cl_entry_count L m + extraEntries; ec = cl_entry_capacity L m;
               d = cl_data_count L m + extraData; dc = cl_data_capacity L m;
               ne = (if ec < e then e * 2 else ec); nd = (if dc < d then d * 2 else dc)
           in if ec < ne \<or> dc < nd then Some (ne, nd) else None))"

lemma fresh_allocate:
  "camlib_fresh L \<Longrightarrow> cl_allocate L h e d = Some (p, m) \<Longrightarrow> p \<noteq> 0 \<and> h p = None"
  unfolding camlib_fresh_def by blast

lemma fresh_clone: "camlib_fresh L \<Longrightarrow> cl_clone L h src = Some (p, m) \<Longrightarrow> p \<noteq> 0 \<and> h p = None"
  unfolding camlib_fresh_def by blast

text \<open>The growing branch, after the new capacities are known.\<close>

definition grow :: "'m camlib \<Rightarrow> nat \<Rightarrow> addr \<Rightarrow> u32 \<Rightarrow> u32 \<Rightarrow> (('m, 'a) cam_scheme, int) state" where
  "grow L i b ne nd = do {
     n \<leftarrow> lib_new (\<lambda>h. cl_allocate L h ne nd);
     setBuffer i n;
     if n = 0 then State_Monad.return NO_MEMORY
     else if b = 0 then State_Monad.return OK
     else do {
       old \<leftarrow> lib_read b id;
       _ \<leftarrow> lib_write n (\<lambda>m. cl_append L m old);
       lib_free b;
       State_Monad.return OK
     }
   }"

lemma case_if_Some:
  "(case if c then Some x else None of None \<Rightarrow> a | Some y \<Rightarrow> f y) = (if c then f x else a)"
  by simp

lemma resize_grow:
  assumes "valid (mBuffer w i) w" "cells w 0 = None"
  shows "run_state (resizeIfNeeded L i e d) w =
     (case resize_plan L (cells w (mBuffer w i)) e d of
        None \<Rightarrow> (OK, w)
      | Some (ne, nd) \<Rightarrow> run_state (grow L i (mBuffer w i) ne nd) w)"
proof (cases "mBuffer w i = 0")
  case True
  with assms show ?thesis
    by (simp add: resizeIfNeeded_def resize_plan_def grow_def run_state_split exec_bind result_bind)
next
  case False
  with assms obtain m where m: "cells w (mBuffer w i) = Some m" by (auto simp: valid_def)
  with False assms show ?thesis
    by (simp add: resizeIfNeeded_def resize_plan_def grow_def Let_def deref_def lib_read_run case_if_Some
        del: bind_assoc split del: if_split cong: if_cong)
qed

lemma grow_exec:
  assumes "camlib_fresh L" "valid b w" "cells w 0 = None"
  shows "run_state (grow L i b ne nd) w =
     (case cl_allocate L (cells w) ne nd of
        None \<Rightarrow> (NO_MEMORY, w\<lparr>mBuffer := (mBuffer w)(i := 0)\<rparr>)
      | Some (p, n) \<Rightarrow> (OK,
          w\<lparr>cells := (if b = 0 then (cells w)(p \<mapsto> n)
              else (cells w)(p \<mapsto> snd (cl_append L (Some n) (cells w b)), b := None)),
            mBuffer := (mBuffer w)(i := p)\<rparr>))"
proof (cases "cl_allocate L (cells w) ne nd")
  case None
  then show ?thesis by (simp add: grow_def run_state_split exec_bind result_bind)
next
  case (Some pn)
  obtain p n where pn: "pn = (p, n)" by (cases pn)
  with Some assms(1) have p: "p \<noteq> 0" "cells w p = None" by (auto dest: fresh_allocate)
  show ?thesis
  proof (cases "b = 0")
    case False
    with assms(2) obtain m where m: "cells w b = Some m" by (auto simp: valid_def)
    with p have "b \<noteq> p" by auto
    with False m p Some pn show ?thesis
      by (simp add: grow_def run_state_split exec_bind result_bind valid_def deref_def)
  qed (use p Some pn in \<open>simp add: grow_def run_state_split exec_bind result_bind\<close>)
qed

definition alloc_ok :: "'m camlib \<Rightarrow> (addr \<rightharpoonup> 'm) \<Rightarrow> bool" where
  "alloc_ok L h \<longleftrightarrow> (\<forall>ne nd. cl_allocate L h ne nd \<noteq> None)"

lemmas op_simps = exec_bind result_bind

lemma own_lock [simp]: "own_inv ex (w\<lparr>mLocked := l\<rparr>) = own_inv ex w"
  by (simp add: own_inv_def)

lemma own_zero: "own_inv ex w \<Longrightarrow> cells w 0 = None"
  by (simp add: own_inv_def owned_def)

lemma cells_idem [simp]: "w\<lparr>cells := cells w\<rparr> = w" "w\<lparr>mBuffer := mBuffer w\<rparr> = w"
  by simp_all

lemma clear_own:
  assumes "own_inv ex w" "i \<in> live w"
  shows "exec (clear i) w = (if mLocked w i then w
     else w\<lparr>cells := (cells w)(mBuffer w i := None), mBuffer := (mBuffer w)(i := 0)\<rparr>)"
proof -
  have "(cells w)(0 := None) = cells w" "mBuffer w i = 0 \<Longrightarrow> (mBuffer w)(i := 0) = mBuffer w"
    using own_zero [OF assms(1)] by (simp_all add: fun_upd_idem)
  with own_valid [OF assms] show ?thesis by (cases "mBuffer w i = 0") (simp_all add: clear_exec)
qed

lemma acquire_own:
  assumes "own_inv ex w" "i \<in> live w" "b = 0 \<or> b \<in> held w"
  shows "exec (acquire i b) w = (if mLocked w i then w
     else w\<lparr>cells := (cells w)(mBuffer w i := None), mBuffer := (mBuffer w)(i := b)\<rparr>)"
proof -
  have "b = 0 \<or> b \<noteq> mBuffer w i \<and> valid b w" using assms by (auto dest: held_not_buffer)
  with own_valid [OF assms(1,2)] show ?thesis by (simp add: acquire_exec clear_own [OF assms(1,2)])
qed

lemma own_held_self: "own_inv ex w \<Longrightarrow> held w - {0} = held w"
  by (auto simp: own_inv_def owned_def)

lemma inv_clear: "own_inv ex w \<Longrightarrow> i \<in> live w \<Longrightarrow> own_inv ex (exec (clear i) w)"
  by (subst clear_own, assumption, assumption) (simp add: own_inv_def owned_free)

lemma inv_release:
  "own_inv ex w \<Longrightarrow> i \<in> live w \<Longrightarrow>
     own_inv ex ((exec (release i) w)\<lparr>held := (held w \<union> {result (release i) w}) - {0}\<rparr>)"
  using owned_drop [of ex "cells w" "mBuffer w" "held w" "live w" i] own_held_self [of ex w]
  by (cases "mLocked w i") (simp_all add: release_exec own_inv_def)

lemma inv_acquire:
  assumes "own_inv ex w" "i \<in> live w" "b = 0 \<or> b \<in> held w"
  shows "own_inv ex ((exec (acquire i b) w)\<lparr>held := if mLocked w i then held w else held w - {b}\<rparr>)"
proof -
  have "owned ex ((cells w)(mBuffer w i := None)) ((mBuffer w)(i := b)) (held w - {b}) (live w)"
    using owned_take [OF owned_free [of ex "cells w" "mBuffer w"], of "held w" "live w" i i b] assms
    by (simp add: own_inv_def)
  with assms(1) show ?thesis by (simp add: acquire_own [OF assms] own_inv_def)
qed

lemma acquire_object_exec:
  assumes "own_inv ex w" "i \<in> live w" "j \<in> live w"
  shows "exec (acquire_object i j) w =
    (if mLocked w i \<or> i = j then w
     else if mLocked w j then w\<lparr>cells := (cells w)(mBuffer w i := None), mBuffer := (mBuffer w)(i := 0)\<rparr>
     else w\<lparr>cells := (cells w)(mBuffer w i := None), mBuffer := (mBuffer w)(j := 0, i := mBuffer w j)\<rparr>)"
proof -
  let ?B = "mBuffer w" and ?v = "w\<lparr>mBuffer := (mBuffer w)(j := 0)\<rparr>"
  have j: "exec (acquire_object i j) w = exec (acquire i (?B j)) ?v" if "\<not> mLocked w i" "\<not> mLocked w j"
    using that by (simp add: acquire_object_def op_simps release_exec)
  have v: "valid (?B i) ?v" "valid (?B j) ?v"
    using own_valid [OF assms(1,2)] own_valid [OF assms(1,3)] by (simp_all add: valid_def)
  have null: "?B i = 0 \<Longrightarrow> (cells w)(?B i := None) = cells w" using own_zero [OF assms(1)] by (simp add: fun_upd_idem)
  consider "mLocked w i" | "\<not> mLocked w i" "mLocked w j" | "\<not> mLocked w i" "\<not> mLocked w j" "i = j"
    | "\<not> mLocked w i" "\<not> mLocked w j" "i \<noteq> j" by blast
  then show ?thesis
  proof cases
    case 1
    then show ?thesis by (simp add: acquire_object_def op_simps)
  next
    case 2
    then show ?thesis
      by (auto simp: acquire_object_def op_simps release_exec acquire_own [OF assms(1,2)])
  next
    case 3
    with j own_valid [OF assms(1,3)] show ?thesis by (simp add: acquire_exec clear_exec valid_def)
  next
    case 4
    have "?B j = 0 \<or> ?B j \<noteq> ?B i" using assms 4 unfolding own_inv_def owned_def by metis
    with 4 v null show ?thesis by (cases "?B i = 0") (simp_all add: j acquire_exec clear_exec)
  qed
qed

lemma inv_acquire_object:
  assumes "own_inv ex w" "i \<in> live w" "j \<in> live w"
  shows "own_inv ex (exec (acquire_object i j) w)"
  using assms owned_free [of ex "cells w" "mBuffer w" "held w" "live w" i]
    owned_move [of ex "cells w" "mBuffer w" "held w" "live w" i j]
  by (simp add: acquire_object_exec [OF assms] own_inv_def)

lemma inv_swap: "own_inv ex w \<Longrightarrow> i \<in> live w \<Longrightarrow> j \<in> live w \<Longrightarrow> own_inv ex (exec (swap i j) w)"
  using owned_swap [of ex "cells w" "mBuffer w" "held w" "live w" j i]
  by (auto simp: swap_def op_simps own_inv_def)

lemma inv_assign:
  assumes "camlib_fresh L" "own_inv ex w" "i \<in> live w" "valid b w"
  shows "own_inv ex (exec (assign L i b) w)"
proof (cases "cl_clone L (cells w) (cells w b)")
  case None
  have "exec (assign L i b) w = (if mLocked w i \<or> b = mBuffer w i then w else exec (clear i) w)"
    using None assms by (simp add: assign_def op_simps own_deref clear_own [OF assms(2,3)])
  with inv_clear [OF assms(2,3)] assms(2) show ?thesis by simp
next
  case (Some pn)
  obtain p n where pn: "pn = (p, n)" by (cases pn)
  with Some assms(1) have p: "p \<noteq> 0" "cells w p = None" by (auto dest: fresh_clone)
  let ?c = "(cells w)(p \<mapsto> n, mBuffer w i := None)"
  have o: "owned ex ?c ((mBuffer w)(i := p)) (held w) (live w)"
    using assms(2,3) p by (intro owned_replace) (simp_all add: own_inv_def)
  have "valid (mBuffer w i) (w\<lparr>cells := (cells w)(p \<mapsto> n)\<rparr>)"
    using own_valid [OF assms(2,3)] by (simp add: valid_def)
  moreover have "mBuffer w i = 0 \<Longrightarrow> ?c = (cells w)(p \<mapsto> n)"
    using p own_zero [OF assms(2)] by (auto simp: fun_eq_iff)
  ultimately have "exec (assign L i b) w = (if mLocked w i \<or> b = mBuffer w i then w
      else w\<lparr>cells := ?c, mBuffer := (mBuffer w)(i := p)\<rparr>)"
    using assms Some pn by (simp add: assign_def op_simps own_deref clear_exec)
  with o assms(2) show ?thesis by (simp add: own_inv_def)
qed

lemma client_frame [simp]:
  "held (exec (lib_write p f) w) = held w" "live (exec (lib_write p f) w) = live w"
  "held (exec (lib_read p f) w) = held w" "live (exec (lib_read p f) w) = live w"
  by (simp_all add: lib_write_def lib_read_def touch_def op_simps)

lemma inv_cell: "own_inv ex w \<Longrightarrow> valid p w \<Longrightarrow> p \<noteq> 0 \<Longrightarrow> own_inv ex (w\<lparr>cells := (cells w)(p \<mapsto> m)\<rparr>)"
  by (simp add: own_inv_def valid_def owned_write)

lemma inv_write: "own_inv ex w \<Longrightarrow> valid p w \<Longrightarrow> own_inv ex (exec (lib_write p f) w)"
  by (auto simp: own_inv_def valid_def owned_write)

text \<open>What \<^verbatim>\<open>resizeIfNeeded\<close> does, in one equation.\<close>

lemma resize_run:
  assumes "camlib_fresh L" "own_inv ex w" "i \<in> live w"
  shows "run_state (resizeIfNeeded L i e d) w =
     (case resize_plan L (cells w (mBuffer w i)) e d of
        None \<Rightarrow> (OK, w)
      | Some (ne, nd) \<Rightarrow>
         (case cl_allocate L (cells w) ne nd of
            None \<Rightarrow> (NO_MEMORY, w\<lparr>mBuffer := (mBuffer w)(i := 0)\<rparr>)
          | Some (p, n) \<Rightarrow> (OK,
              w\<lparr>cells := (cells w)(p \<mapsto> (if cells w (mBuffer w i) = None then n
                    else snd (cl_append L (Some n) (cells w (mBuffer w i)))), mBuffer w i := None),
                mBuffer := (mBuffer w)(i := p)\<rparr>)))"
proof -
  note v = own_valid [OF assms(2,3)] and z = own_zero [OF assms(2)]
  have eq: "(if mBuffer w i = 0 then (cells w)(p \<mapsto> n)
       else (cells w)(p \<mapsto> snd (cl_append L (Some n) (cells w (mBuffer w i))), mBuffer w i := None)) =
     (cells w)(p \<mapsto> (if cells w (mBuffer w i) = None then n
         else snd (cl_append L (Some n) (cells w (mBuffer w i)))), mBuffer w i := None)"
    if "p \<noteq> 0" for p n
    using v z that by (auto simp: valid_def fun_eq_iff)
  show ?thesis
  proof (cases "resize_plan L (cells w (mBuffer w i)) e d")
    case None
    then show ?thesis by (simp add: resize_grow [OF v z])
  next
    case (Some q)
    obtain ne nd where q: "q = (ne, nd)" by (cases q)
    show ?thesis
    proof (cases "cl_allocate L (cells w) ne nd")
      case None
      with Some q show ?thesis by (simp add: resize_grow [OF v z] grow_exec [OF assms(1) v z])
    next
      case (Some r)
      obtain p n where r: "r = (p, n)" by (cases r)
      with Some have p: "p \<noteq> 0" using fresh_allocate [OF assms(1)] by simp
      from Some r \<open>resize_plan L (cells w (mBuffer w i)) e d = Some q\<close> q show ?thesis
        by (simp add: resize_grow [OF v z] grow_exec [OF assms(1) v z] eq [OF p] del: fun_upd_apply)
    qed
  qed
qed

lemma resize_keeps:
  fixes e d :: u32
  assumes "camlib_fresh L" "own_inv ex w" "i \<in> live w"
  defines "u \<equiv> exec (resizeIfNeeded L i e d) w"
  shows "live u = live w" "held u = held w" "mLocked u = mLocked w"
    "q \<noteq> mBuffer w i \<Longrightarrow> cells w q \<noteq> None \<Longrightarrow> cells u q = cells w q"
    "j \<noteq> i \<Longrightarrow> mBuffer u j = mBuffer w j"
  by (auto simp: u_def exec_def resize_run [OF assms(1-3)] dest: fresh_allocate [OF assms(1)] split: option.splits)

lemma resize_memory:
  "camlib_fresh L \<Longrightarrow> own_inv ex w \<Longrightarrow> i \<in> live w \<Longrightarrow> alloc_ok L (cells w) \<Longrightarrow>
     result (resizeIfNeeded L i e d) w \<noteq> NO_MEMORY"
  by (auto simp: result_def resize_run alloc_ok_def split: option.split) (metis option.distinct(1))

lemma inv_resize:
  assumes "camlib_fresh L" "own_inv ex w" "i \<in> live w" "ex \<longrightarrow> alloc_ok L (cells w)"
  shows "own_inv ex (exec (resizeIfNeeded L i e d) w)"
proof -
  have "owned ex ((cells w)(p \<mapsto> m, mBuffer w i := None)) ((mBuffer w)(i := p)) (held w) (live w)"
    if "cl_allocate L (cells w) ne nd = Some (p, n)" for p m n ne nd
    using assms(2,3) fresh_allocate [OF assms(1) that] by (intro owned_replace) (simp_all add: own_inv_def)
  moreover have "\<not> ex" if "cl_allocate L (cells w) ne nd = None" for ne nd
    using assms(4) that unfolding alloc_ok_def by metis
  ultimately show ?thesis
    using assms(2) by (auto simp: exec_def resize_run [OF assms(1-3)] own_inv_def owned_leak split: option.splits)
qed

lemma inv_append:
  assumes "camlib_fresh L" "own_inv ex w" "i \<in> live w" "ex \<longrightarrow> alloc_ok L (cells w)"
    and "valid b w" "b = 0 \<or> b \<noteq> mBuffer w i"
  shows "own_inv ex (exec (append L i b) w)"
proof -
  define u where "u = exec (resizeIfNeeded L i (cl_entry_count L (cells w b)) (cl_data_count L (cells w b))) w"
  have u: "own_inv ex u" unfolding u_def by (rule inv_resize [OF assms(1-4)])
  have l: "live u = live w" and "valid b u"
    using assms(5,6) resize_keeps(1,4) [OF assms(1-3)] by (auto simp: u_def valid_def)
  moreover have "valid (mBuffer u i) u" using u l assms(3) by (intro own_valid) simp_all
  ultimately show ?thesis
    using u assms by (simp add: append_def op_simps own_deref u_def [symmetric] inv_cell)
qed

lemma data_apart: "b = 0 \<or> a \<noteq> b \<Longrightarrow> \<not> (b < a \<and> a < b + sz) \<Longrightarrow> data_home a b sz = 0"
  by (auto simp: data_home_def le_less)

lemma inv_updateImpl:
  assumes "own_inv ex w" "i \<in> live w" "camlib_fresh L" "ex \<longrightarrow> alloc_ok L (cells w)" "mBuffer w i = 0 \<or> a \<noteq> mBuffer w i"
  shows "own_inv ex (exec (updateImpl L i tag a bs n) w)"
proof -
  define e where "e = cl_data_size L (cl_tag_type L tag) n"
  define u where "u = exec (resizeIfNeeded L i 1 e) w"
  have u: "own_inv ex u" unfolding u_def by (rule inv_resize [OF assms(3,1,2,4)])
  have "live u = live w" unfolding u_def by (rule resize_keeps(1) [OF assms(3,1,2)])
  with u assms have "valid (mBuffer u i) u" by (intro own_valid) simp_all
  with u assms show ?thesis
    by (simp add: updateImpl_def op_simps own_deref e_def [symmetric] u_def [symmetric] inv_cell data_apart split: prod.split)
qed

lemma inv_sort: "own_inv ex w \<Longrightarrow> i \<in> live w \<Longrightarrow> own_inv ex (exec (sort_metadata L i) w)"
  by (simp add: sort_metadata_def op_simps inv_cell)

lemma inv_update:
  assumes "camlib_fresh L" "own_inv ex w" "i \<in> live w" "ex \<longrightarrow> alloc_ok L (cells w)" "mBuffer w i = 0 \<or> a \<noteq> mBuffer w i"
  shows "own_inv ex (exec (update L ty i tag a bs n) w)" "own_inv ex (exec (update_string L i tag a bs) w)"
  using inv_updateImpl [OF assms(2,3,1,4,5)] assms(2) by (simp_all add: update_def update_string_def op_simps)

lemma inv_erase: "own_inv ex w \<Longrightarrow> i \<in> live w \<Longrightarrow> own_inv ex (exec (erase L i tag) w)"
  by (simp add: erase_def op_simps inv_cell split: prod.split)

text \<open>Queries change nothing.\<close>

lemma queries_pure:
  assumes "own_inv ex w" "i \<in> live w"
  shows "exec (entryCount L i) w = w" "exec (metadata_exists L i tag) w = w" "exec (find_entry L i tag) w = w"
    "exec (find_const L i tag) w = w" "exec (dump i) w = w"
  using own_valid [OF assms]
  by (simp_all add: entryCount_def metadata_exists_def find_entry_def find_const_def dump_def op_simps split: prod.split)

section \<open>Construction and destruction\<close>

lemma own_new:
  assumes "own_inv ex w" "i \<notin> live w"
  shows "owned ex (cells w) ((mBuffer w)(i := 0)) (held w) (insert i (live w))"
  using assms by (simp add: own_inv_def owned_new)

lemma inv_new_empty:
  "own_inv ex w \<Longrightarrow> i \<notin> live w \<Longrightarrow> own_inv ex ((exec (construct_empty i) w)\<lparr>live := insert i (live w)\<rparr>)"
  using own_new [of ex w i] by (simp add: construct_empty_def op_simps own_inv_def)

lemma own_new_filled:
  assumes "own_inv ex w" "i \<notin> live w" "p \<noteq> 0" "cells w p = None"
  shows "owned ex ((cells w)(p \<mapsto> n)) ((mBuffer w)(i := p)) (held w) (insert i (live w))"
  using owned_fill [OF own_new [OF assms(1,2)], of i p n] assms(3,4) by simp

lemma inv_new_capacity:
  assumes "camlib_fresh L" "own_inv ex w" "i \<notin> live w"
  shows "own_inv ex ((exec (construct_capacity L i e d) w)\<lparr>live := insert i (live w)\<rparr>)"
  using assms(2) own_new [OF assms(2,3)] own_new_filled [OF assms(2,3)]
  by (auto simp: construct_capacity_def op_simps own_inv_def dest: fresh_allocate [OF assms(1)]
      split: option.split)

lemma inv_new_copy:
  assumes "camlib_fresh L" "own_inv ex w" "i \<notin> live w" "j \<in> live w"
  shows "own_inv ex ((exec (construct_copy L i j) w)\<lparr>live := insert i (live w)\<rparr>)"
proof -
  have "valid (mBuffer w j) (w\<lparr>mLocked := l\<rparr>)" for l
    using own_valid [OF assms(2,4)] by (simp add: valid_def)
  then show ?thesis
    using assms(2) own_new [OF assms(2,3)] own_new_filled [OF assms(2,3)]
    by (auto simp: construct_copy_def op_simps own_inv_def dest: fresh_clone [OF assms(1)]
        split: option.split)
qed

lemma inv_new_raw:
  assumes "own_inv ex w" "i \<notin> live w" "b = 0 \<or> b \<in> held w"
  shows "own_inv ex ((exec (construct_raw i b) w)\<lparr>live := insert i (live w), held := held w - {b}\<rparr>)"
proof -
  have v: "valid b (w\<lparr>mLocked := l, mBuffer := B\<rparr>)" for B l
    using held_valid [OF assms(1)] assms(3) by (auto simp: valid_def)
  have "exec (construct_raw i b) w = w\<lparr>mBuffer := (mBuffer w)(i := b), mLocked := (mLocked w)(i := False)\<rparr>"
    using v by (simp add: construct_raw_def op_simps acquire_def clear_def)
  moreover have "owned ex (cells w) ((mBuffer w)(i := b)) (held w - {b}) (insert i (live w))"
    using owned_take [OF own_new [OF assms(1,2)], of i b] assms(3) by simp
  ultimately show ?thesis using assms(1) by (simp add: own_inv_def)
qed

lemma inv_destroy:
  assumes "own_inv ex w" "i \<in> live w"
  shows "own_inv ex ((exec (destruct i) w)\<lparr>live := live w - {i}\<rparr>)"
proof -
  let ?v = "w\<lparr>mLocked := (mLocked w)(i := False)\<rparr>"
  have v: "own_inv ex ?v" "i \<in> live ?v" using assms by (simp_all add: own_inv_def)
  have "owned ex ((cells w)(mBuffer w i := None)) ((mBuffer w)(i := 0)) (held w) (live w - {i})"
    using assms by (intro owned_del owned_free) (simp_all add: own_inv_def)
  with assms(1) show ?thesis
    by (simp add: destruct_def op_simps clear_own [OF v] own_inv_def)
qed

section \<open>Every sequence of calls\<close>

lemma cam_step_inv:
  assumes "camlib_fresh L" "own_inv ex w" "cam_guard e w" "ex \<longrightarrow> alloc_ok L (cells w)"
  shows "own_inv ex (cam_step L e w)"
proof (cases e)
  case (AppendObject i j)
  have "mBuffer w j = 0 \<or> mBuffer w j \<noteq> mBuffer w i"
    using assms(2,3) AppendObject by (auto simp: own_inv_def owned_def)
  with assms AppendObject show ?thesis
    by (auto simp: append_object_def op_simps intro!: inv_append)
next
  case (Release i)
  with assms show ?thesis using inv_release [of ex w i] by simp
next
  case (Acquire i b)
  with assms show ?thesis using inv_acquire [of ex w i b] by simp
qed (use assms in \<open>auto simp: queries_pure assign_object_def getAndLock_def unlock_def op_simps
       inv_new_empty inv_new_capacity inv_new_copy inv_new_raw inv_destroy inv_clear inv_acquire_object
       inv_swap inv_assign inv_append inv_sort inv_update inv_erase\<close>)

lemma own_init: "cam_init w \<Longrightarrow> own_inv ex w"
  by (simp add: cam_init_def own_inv_def owned_def)

interpretation cam_safe: machine cam_guard "cam_step L" cam_init "\<lambda>w. camlib_fresh L \<longrightarrow> own_inv False w"
  by unfold_locales (simp_all add: own_init cam_step_inv)

interpretation cam_tight: machine "\<lambda>e w. cam_guard e w \<and> alloc_ok L (cells w)" "cam_step L" cam_init
    "\<lambda>w. camlib_fresh L \<longrightarrow> own_inv True w"
  by unfold_locales (simp_all add: own_init cam_step_inv)

section \<open>Contents\<close>

text \<open>
  What the library documents of the calls that \<^verbatim>\<open>update\<close> relies on, over the entries of
  a buffer as a map from tags: \<^verbatim>\<open>find\<close> reports what is there; adding and updating work
  when there is room; a new buffer is empty with the capacities asked for; appending to an
  empty buffer with room copies.
\<close>

definition camlib_laws :: "'m camlib \<Rightarrow> ('m \<Rightarrow> u32 \<rightharpoonup> u32 \<times> bytes) \<Rightarrow> bool" where
  "camlib_laws L ent \<longleftrightarrow>
     (\<forall>m tag. case ent m tag of
        None \<Rightarrow> fst (cl_find L (Some m) tag) = NAME_NOT_FOUND
      | Some (n, bs) \<Rightarrow> fst (cl_find L (Some m) tag) = OK \<and>
          e_count (snd (cl_find L (Some m) tag)) = n \<and> e_data (snd (cl_find L (Some m) tag)) = DataAt bs) \<and>
     (\<forall>m tag bs n. ent m tag = None \<longrightarrow>
        uint (cl_entry_count L (Some m)) < uint (cl_entry_capacity L (Some m)) \<longrightarrow>
        uint (cl_data_count L (Some m)) + uint (cl_data_size L (cl_tag_type L tag) n) \<le> uint (cl_data_capacity L (Some m)) \<longrightarrow>
        fst (cl_add L (Some m) tag bs n) = OK \<and> ent (snd (cl_add L (Some m) tag bs n)) = (ent m)(tag \<mapsto> (n, bs))) \<and>
     (\<forall>m tag bs n. ent m tag \<noteq> None \<longrightarrow>
        uint (cl_data_count L (Some m)) + uint (cl_data_size L (cl_tag_type L tag) n) \<le> uint (cl_data_capacity L (Some m)) \<longrightarrow>
        (let r = cl_update L (Some m) (e_index (snd (cl_find L (Some m) tag))) bs n
         in fst r = OK \<and> ent (snd r) = (ent m)(tag \<mapsto> (n, bs)))) \<and>
     (\<forall>h ne nd p m. cl_allocate L h ne nd = Some (p, m) \<longrightarrow>
        ent m = Map.empty \<and> cl_entry_count L (Some m) = 0 \<and> cl_data_count L (Some m) = 0 \<and>
        cl_entry_capacity L (Some m) = ne \<and> cl_data_capacity L (Some m) = nd) \<and>
     (\<forall>m m'. ent m = Map.empty \<longrightarrow> cl_entry_count L (Some m) = 0 \<longrightarrow> cl_data_count L (Some m) = 0 \<longrightarrow>
        uint (cl_entry_count L (Some m')) \<le> uint (cl_entry_capacity L (Some m)) \<longrightarrow>
        uint (cl_data_count L (Some m')) \<le> uint (cl_data_capacity L (Some m)) \<longrightarrow>
        (let c = snd (cl_append L (Some m) (Some m')) in
         ent c = ent m' \<and> cl_entry_count L (Some c) = cl_entry_count L (Some m') \<and>
         cl_data_count L (Some c) = cl_data_count L (Some m') \<and>
         cl_entry_capacity L (Some c) = cl_entry_capacity L (Some m) \<and>
         cl_data_capacity L (Some c) = cl_data_capacity L (Some m)))"

definition contents :: "('m \<Rightarrow> u32 \<rightharpoonup> u32 \<times> bytes) \<Rightarrow> nat \<Rightarrow> ('m, 'a) cam_scheme \<Rightarrow> u32 \<rightharpoonup> u32 \<times> bytes" where
  "contents ent i w = (case cells w (mBuffer w i) of None \<Rightarrow> Map.empty | Some m \<Rightarrow> ent m)"

text \<open>The sizes in use, 0 for an object without a buffer.\<close>

definition used :: "('m option \<Rightarrow> u32) \<Rightarrow> 'm option \<Rightarrow> int" where
  "used f m = (case m of None \<Rightarrow> 0 | Some _ \<Rightarrow> uint (f m))"

lemma plan_room:
  fixes e d :: u32
  assumes "2 * (used (cl_entry_count L) m + uint e) < 2 ^ 32" "2 * (used (cl_data_count L) m + uint d) < 2 ^ 32"
  shows "case resize_plan L m e d of
      None \<Rightarrow> m \<noteq> None \<and> uint (cl_entry_count L m) + uint e \<le> uint (cl_entry_capacity L m) \<and>
        uint (cl_data_count L m) + uint d \<le> uint (cl_data_capacity L m)
    | Some (ne, nd) \<Rightarrow> used (cl_entry_count L) m + uint e \<le> uint ne \<and> used (cl_data_count L) m + uint d \<le> uint nd"
proof -
  have dbl: "uint (x * 2) = 2 * uint x" if "2 * uint x < 2 ^ 32" for x :: u32
    using that by (simp add: uint_word_ariths)
  have add: "uint (x + y) = uint x + uint y" if "uint x + uint y < 2 ^ 32" for x y :: u32
    using that by (simp add: uint_word_ariths)
  show ?thesis
  proof (cases m)
    case None
    with assms show ?thesis by (simp add: resize_plan_def used_def dbl)
  next
    case (Some c)
    have s: "uint (cl_entry_count L m + e) = uint (cl_entry_count L m) + uint e"
      "uint (cl_data_count L m + d) = uint (cl_data_count L m) + uint d"
      using assms Some by (intro add; simp add: used_def)+
    have t: "uint ((cl_entry_count L m + e) * 2) = 2 * (uint (cl_entry_count L m) + uint e)"
      "uint ((cl_data_count L m + d) * 2) = 2 * (uint (cl_data_count L m) + uint d)"
      using assms Some s by (subst dbl; simp add: used_def)+
    have n: "0 \<le> uint e" "0 \<le> uint d" "0 \<le> uint (cl_entry_count L (Some c))" "0 \<le> uint (cl_data_count L (Some c))"
      by simp_all
    show ?thesis
      using s t Some unfolding resize_plan_def used_def Let_def word_less_def
      by (auto simp: not_less simp del: semiring_norm; use n in linarith)
  qed
qed

text \<open>After a resize that found memory there is room for what was asked, with the contents kept.\<close>

lemma resize_room:
  fixes e d :: u32
  assumes laws: "camlib_laws L ent" and fresh: "camlib_fresh L" and own: "own_inv ex w" and i: "i \<in> live w"
    and mem: "result (resizeIfNeeded L i e d) w \<noteq> NO_MEMORY"
    and small: "2 * (used (cl_entry_count L) (cells w (mBuffer w i)) + uint e) < 2 ^ 32"
      "2 * (used (cl_data_count L) (cells w (mBuffer w i)) + uint d) < 2 ^ 32"
  defines "u \<equiv> exec (resizeIfNeeded L i e d) w"
  obtains m where "result (resizeIfNeeded L i e d) w = OK" "cells u (mBuffer u i) = Some m" "ent m = contents ent i w"
    "uint (cl_entry_count L (Some m)) + uint e \<le> uint (cl_entry_capacity L (Some m))"
    "uint (cl_data_count L (Some m)) + uint d \<le> uint (cl_data_capacity L (Some m))"
proof -
  let ?m = "cells w (mBuffer w i)"
  note run = resize_run [OF fresh own i, of e d]
  have e0: "0 \<le> uint e" "0 \<le> uint d" by simp_all
  show thesis
  proof (cases "resize_plan L ?m e d")
    case None
    with plan_room [OF small] obtain m where m: "?m = Some m"
      "uint (cl_entry_count L ?m) + uint e \<le> uint (cl_entry_capacity L ?m)"
      "uint (cl_data_count L ?m) + uint d \<le> uint (cl_data_capacity L ?m)" by auto
    show ?thesis
      by (rule that [of m]) (use None m run in \<open>simp_all add: u_def exec_def result_def contents_def\<close>)
  next
    case (Some q)
    obtain ne nd where q: "q = (ne, nd)" by (cases q)
    from mem run Some q obtain p n where pn: "cl_allocate L (cells w) ne nd = Some (p, n)"
      by (auto simp: result_def split: option.splits)
    have n: "ent n = Map.empty" "cl_entry_count L (Some n) = 0" "cl_data_count L (Some n) = 0"
      "cl_entry_capacity L (Some n) = ne" "cl_data_capacity L (Some n) = nd"
      using laws pn unfolding camlib_laws_def by blast+
    have room: "used (cl_entry_count L) ?m + uint e \<le> uint ne" "used (cl_data_count L) ?m + uint d \<le> uint nd"
      using plan_room [OF small] Some q by simp_all
    define c where "c = (if ?m = None then n else snd (cl_append L (Some n) ?m))"
    have p: "p \<noteq> mBuffer w i"
      using fresh_allocate [OF fresh pn] own_valid [OF own i] by (auto simp: valid_def)
    have c: "ent c = contents ent i w \<and> uint (cl_entry_count L (Some c)) + uint e \<le> uint (cl_entry_capacity L (Some c)) \<and>
        uint (cl_data_count L (Some c)) + uint d \<le> uint (cl_data_capacity L (Some c))"
    proof (cases ?m)
      case None
      with n room show ?thesis by (simp add: c_def contents_def used_def)
    next
      case (Some m')
      from laws have "ent n = Map.empty \<longrightarrow> cl_entry_count L (Some n) = 0 \<longrightarrow> cl_data_count L (Some n) = 0 \<longrightarrow>
        uint (cl_entry_count L (Some m')) \<le> uint (cl_entry_capacity L (Some n)) \<longrightarrow>
        uint (cl_data_count L (Some m')) \<le> uint (cl_data_capacity L (Some n)) \<longrightarrow>
        (let c = snd (cl_append L (Some n) (Some m')) in
         ent c = ent m' \<and> cl_entry_count L (Some c) = cl_entry_count L (Some m') \<and>
         cl_data_count L (Some c) = cl_data_count L (Some m') \<and>
         cl_entry_capacity L (Some c) = cl_entry_capacity L (Some n) \<and>
         cl_data_capacity L (Some c) = cl_data_capacity L (Some n))"
        unfolding camlib_laws_def by blast
      moreover have "uint (cl_entry_count L (Some m')) \<le> uint ne" "uint (cl_data_count L (Some m')) \<le> uint nd"
        using room [unfolded used_def Some option.case] e0 by linarith+
      ultimately show ?thesis using n room Some by (simp add: c_def contents_def used_def Let_def)
    qed
    show ?thesis
      by (rule that [of c]) (use Some q pn p c run in \<open>simp_all add: u_def exec_def result_def c_def\<close>)
  qed
qed

section \<open>Locked objects\<close>

text \<open>What another operation leaves alone of an object.\<close>

definition same_object :: "nat \<Rightarrow> ('m, 'a) client_scheme \<Rightarrow> ('m, 'a) client_scheme \<Rightarrow> bool" where
  "same_object j w u \<longleftrightarrow> j \<in> live u \<and> mLocked u j = mLocked w j \<and> mBuffer u j = mBuffer w j \<and>
     cells u (mBuffer w j) = cells w (mBuffer w j)"

lemma other_buffer:
  assumes "own_inv ex w" "i \<in> live w" "j \<in> live w" "i \<noteq> j"
  shows "mBuffer w j \<noteq> mBuffer w i \<or> mBuffer w j = 0 \<and> mBuffer w i = 0 \<and> cells w 0 = None"
  using assms unfolding own_inv_def owned_def by metis

lemma same_refl [simp]: "j \<in> live w \<Longrightarrow> same_object j w w"
  by (simp add: same_object_def)

lemma clear_same:
  assumes "own_inv ex w" "i \<in> live w" "j \<in> live w" "i \<noteq> j"
  shows "same_object j w (exec (clear i) w)"
  using other_buffer [OF assms] assms by (auto simp: clear_own [OF assms(1,2)] same_object_def)

lemma resize_same:
  assumes "camlib_fresh L" "own_inv ex w" "i \<in> live w" "j \<in> live w" "i \<noteq> j"
  shows "same_object j w (exec (resizeIfNeeded L i e d) w)"
  using other_buffer [OF assms(2-5)] assms own_valid [OF assms(2,4)]
  by (auto simp: exec_def resize_run [OF assms(1-3)] same_object_def valid_def dest: fresh_allocate [OF assms(1)]
      split: option.splits)

lemma same_trans: "same_object j w u \<Longrightarrow> same_object j u v \<Longrightarrow> same_object j w v"
  by (simp add: same_object_def)

lemma write_same:
  assumes "own_inv ex w" "i \<in> live w" "j \<in> live w" "i \<noteq> j"
  shows "same_object j w (exec (lib_write (mBuffer w i) f) w)"
  using other_buffer [OF assms] assms(3) own_valid [OF assms(1,2)] by (auto simp: same_object_def)

lemma acquire_same:
  assumes "own_inv ex w" "i \<in> live w" "j \<in> live w" "i \<noteq> j" "b = 0 \<or> b \<in> held w"
  shows "same_object j w (exec (acquire i b) w)"
  using other_buffer [OF assms(1-4)] assms by (auto simp: acquire_own [OF assms(1,2,5)] same_object_def)

lemma assign_same:
  assumes "camlib_fresh L" "own_inv ex w" "i \<in> live w" "j \<in> live w" "i \<noteq> j" "valid b w"
  shows "same_object j w (exec (assign L i b) w)"
proof (cases "cl_clone L (cells w) (cells w b)")
  case None
  have "exec (assign L i b) w = (if mLocked w i \<or> b = mBuffer w i then w else exec (clear i) w)"
    using None assms by (simp add: assign_def op_simps own_deref clear_own [OF assms(2,3)])
  with clear_same [OF assms(2-5)] assms(4) show ?thesis by simp
next
  case (Some pn)
  obtain p n where pn: "pn = (p, n)" by (cases pn)
  with Some assms(1) have p: "p \<noteq> 0" "cells w p = None" by (auto dest: fresh_clone)
  have "valid (mBuffer w i) (w\<lparr>cells := (cells w)(p \<mapsto> n)\<rparr>)"
    using own_valid [OF assms(2,3)] by (simp add: valid_def)
  with Some pn p assms other_buffer [OF assms(2-5)] own_valid [OF assms(2,4)] show ?thesis
    by (auto simp: assign_def op_simps own_deref clear_exec same_object_def valid_def)
qed

lemma append_same:
  assumes "camlib_fresh L" "own_inv ex w" "i \<in> live w" "j \<in> live w" "i \<noteq> j" "valid b w" "b = 0 \<or> b \<noteq> mBuffer w i"
  shows "same_object j w (exec (append L i b) w)"
proof -
  have own: "own_inv False w" using assms(2) by (auto simp: own_inv_def owned_def)
  define u where "u = exec (resizeIfNeeded L i (cl_entry_count L (cells w b)) (cl_data_count L (cells w b))) w"
  have u: "own_inv False u" unfolding u_def using inv_resize [OF assms(1) own assms(3)] by simp
  have l: "live u = live w" and v: "valid b u"
    using assms(6,7) resize_keeps(1,4) [OF assms(1-3)] by (auto simp: u_def valid_def)
  have "same_object j w u" unfolding u_def by (rule resize_same [OF assms(1-5)])
  moreover have "same_object j u (exec (lib_write (mBuffer u i) f) u)" for f
    using u l assms(3-5) by (intro write_same) simp_all
  ultimately show ?thesis
    using assms(2,4,6) v
    by (auto simp: append_def op_simps own_deref u_def [symmetric] simp del: lib_write_valid intro: same_trans)
qed

lemma updateImpl_same:
  assumes "camlib_fresh L" "own_inv ex w" "i \<in> live w" "j \<in> live w" "i \<noteq> j" "mBuffer w i = 0 \<or> a \<noteq> mBuffer w i"
  shows "same_object j w (exec (updateImpl L i tag a bs n) w)"
proof -
  have own: "own_inv False w" using assms(2) by (auto simp: own_inv_def owned_def)
  define e where "e = cl_data_size L (cl_tag_type L tag) n"
  define u where "u = exec (resizeIfNeeded L i 1 e) w"
  have u: "own_inv False u" unfolding u_def using inv_resize [OF assms(1) own assms(3)] by simp
  have l: "live u = live w" unfolding u_def by (rule resize_keeps(1) [OF assms(1-3)])
  have v: "valid (mBuffer u i) u" using u l assms(3) by (intro own_valid) simp_all
  have s: "same_object j w u" unfolding u_def by (rule resize_same [OF assms(1-5)])
  have "same_object j u (exec (lib_write (mBuffer u i) f) u)" for f
    using u l assms(3-5) by (intro write_same) simp_all
  with s have "same_object j w (exec (lib_write (mBuffer u i) f) u)" for f by (blast intro: same_trans)
  with s show ?thesis
    using assms(2-4) v own_valid [OF assms(2,3)] assms(6)
    by (simp add: updateImpl_def op_simps e_def [symmetric] u_def [symmetric] data_apart del: lib_write_valid split: prod.split)
qed

lemma erase_same:
  assumes "own_inv ex w" "i \<in> live w" "j \<in> live w" "i \<noteq> j"
  shows "same_object j w (exec (erase L i tag) w)" "same_object j w (exec (sort_metadata L i) w)"
  using write_same [OF assms] own_valid [OF assms(1,2)] assms(3)
  by (simp_all add: erase_def sort_metadata_def op_simps del: lib_write_valid split: prod.split)

lemma swap_same:
  "i \<noteq> j \<Longrightarrow> j \<in> live w \<Longrightarrow> k \<noteq> j \<Longrightarrow> same_object j w (exec (swap i k) w)"
  by (auto simp: swap_def op_simps same_object_def)

lemma acquire_object_same:
  assumes "own_inv ex w" "i \<in> live w" "k \<in> live w" "j \<in> live w" "i \<noteq> j" "mLocked w j"
  shows "same_object j w (exec (acquire_object i k) w)"
  using other_buffer [OF assms(1,2,4,5)] assms by (auto simp: acquire_object_exec same_object_def)

text \<open>Every mutator gives up on a locked object.\<close>

lemma locked_gives_up:
  assumes "mLocked w i"
  shows "exec (clear i) w = w" "exec (release i) w = w" "exec (acquire i b) w = w" "exec (acquire_object i k) w = w"
    "exec (assign L i b) w = w" "exec (append L i b) w = w" "exec (sort_metadata L i) w = w"
    "exec (update L ty i tag a bs n) w = w" "exec (update_string L i tag a bs) w = w" "exec (erase L i tag) w = w"
    "exec (swap i k) w = w" "exec (swap k i) w = w"
  using assms
  by (simp_all add: clear_def release_def acquire_def acquire_object_def assign_def append_def sort_metadata_def
      update_def update_string_def erase_def swap_def op_simps)

lemma same_held [simp]: "same_object j w (u\<lparr>held := H\<rparr>) = same_object j w u"
  by (simp add: same_object_def)

lemma same_live: "same_object j w u \<Longrightarrow> j \<in> S \<Longrightarrow> same_object j w (u\<lparr>live := S\<rparr>)"
  by (simp add: same_object_def)

lemma new_same:
  assumes "camlib_fresh L" "own_inv ex w" "i \<notin> live w" "j \<in> live w"
  shows "same_object j w (exec (construct_empty i) w)"
    "same_object j w (exec (construct_capacity L i e d) w)"
    "k \<in> live w \<Longrightarrow> same_object j w (exec (construct_copy L i k) w)"
    "b = 0 \<or> b \<in> held w \<Longrightarrow> same_object j w (exec (construct_raw i b) w)"
proof -
  have ij: "i \<noteq> j" using assms by auto
  have v: "valid (mBuffer w k) (w\<lparr>mLocked := l\<rparr>)" if "k \<in> live w" for k l
    using own_valid [OF assms(2) that] by (simp add: valid_def)
  have vb: "valid b (w\<lparr>mLocked := l, mBuffer := B\<rparr>)" if "b = 0 \<or> b \<in> held w" for l B
    using held_valid [OF assms(2)] that by (auto simp: valid_def)
  have c: "p \<noteq> mBuffer w j" if "p \<noteq> 0" "cells w p = None" for p
    using that own_valid [OF assms(2,4)] by (auto simp: valid_def)
  show "same_object j w (exec (construct_empty i) w)"
    using ij assms(4) by (simp add: construct_empty_def op_simps same_object_def)
  show "same_object j w (exec (construct_capacity L i e d) w)"
    using ij assms(4) c by (auto simp: construct_capacity_def op_simps same_object_def
        dest!: fresh_allocate [OF assms(1)] split: option.split)
  show "same_object j w (exec (construct_copy L i k) w)" if "k \<in> live w"
    using ij assms(4) c v [OF that] by (auto simp: construct_copy_def op_simps same_object_def
        dest!: fresh_clone [OF assms(1)] split: option.split)
  show "same_object j w (exec (construct_raw i b) w)" if "b = 0 \<or> b \<in> held w"
    using ij assms(4) vb [OF that] by (simp add: construct_raw_def op_simps acquire_def clear_def same_object_def)
qed

lemma destroy_same:
  assumes "own_inv ex w" "i \<in> live w" "j \<in> live w" "i \<noteq> j"
  shows "same_object j w (exec (destruct i) w)"
proof -
  let ?v = "w\<lparr>mLocked := (mLocked w)(i := False)\<rparr>"
  have "same_object j ?v (exec (clear i) ?v)" using assms by (intro clear_same) simp_all
  with assms(4) show ?thesis by (simp add: destruct_def op_simps same_object_def)
qed

lemma locked_step_same:
  assumes "camlib_fresh L" "own_inv ex w" "cam_guard e w" "j \<in> live w" "mLocked w j"
    and "e \<noteq> Destroy j" "e \<noteq> Unlock j (mBuffer w j)"
  shows "same_object j w (cam_step L e w)"
proof (cases e)
  case (AppendObject i k)
  have "mBuffer w k = 0 \<or> mBuffer w k \<noteq> mBuffer w i"
    using assms(2,3) AppendObject by (auto simp: own_inv_def owned_def)
  with assms AppendObject show ?thesis
    by (cases "i = j") (auto simp: append_object_def op_simps locked_gives_up intro!: append_same)
next
  case (Swap i k)
  with assms show ?thesis by (cases "i = j"; cases "k = j") (auto simp: locked_gives_up intro: swap_same)
next
  case (AcquireObject i k)
  with assms show ?thesis by (cases "i = j") (auto simp: locked_gives_up intro: acquire_object_same)
next
  case (Acquire i b)
  with assms acquire_same [OF assms(2), of i j b] show ?thesis by (cases "i = j") (auto simp: locked_gives_up)
next
  case (Release i)
  with assms show ?thesis by (cases "i = j") (auto simp: locked_gives_up release_exec same_object_def)
next
  case (Assign i b)
  with assms show ?thesis by (cases "i = j") (auto simp: locked_gives_up intro: assign_same)
next
  case (AssignObject i k)
  with assms show ?thesis
    by (cases "i = j") (auto simp: assign_object_def op_simps locked_gives_up intro: assign_same)
next
  case (Append i b)
  with assms show ?thesis by (cases "i = j") (auto simp: locked_gives_up intro: append_same)
next
  case (Clear i)
  with assms show ?thesis by (cases "i = j") (auto simp: locked_gives_up intro: clear_same)
next
  case (Sort i)
  with assms show ?thesis by (cases "i = j") (auto simp: locked_gives_up intro: erase_same)
next
  case (Erase i tag)
  with assms show ?thesis by (cases "i = j") (auto simp: locked_gives_up intro: erase_same)
next
  case (Update ty i tag a bs n)
  with assms show ?thesis
    by (cases "i = j") (auto simp: locked_gives_up update_def op_simps intro: updateImpl_same)
next
  case (UpdateString i tag a bs)
  with assms show ?thesis
    by (cases "i = j") (auto simp: locked_gives_up update_string_def op_simps intro: updateImpl_same)
qed (use assms in \<open>auto simp: queries_pure getAndLock_def unlock_def op_simps same_object_def [of j w "w\<lparr>mLocked := _\<rparr>"]
       intro!: same_live new_same intro: destroy_same\<close>)

section \<open>A library to run examples on\<close>

text \<open>Two addresses; entries as a map, small enough to need no data area; the index is the tag.\<close>

record demo_meta =
  d_entries :: u32
  d_data :: u32
  d_count :: u32
  d_map :: "u32 \<rightharpoonup> u32 \<times> bytes"

definition demo_new :: "(addr \<rightharpoonup> demo_meta) \<Rightarrow> demo_meta \<Rightarrow> (addr \<times> demo_meta) option" where
  "demo_new h m = (if h 0x1000 = None then Some (0x1000, m) else if h 0x2000 = None then Some (0x2000, m) else None)"

definition demo_zero :: "u32 \<Rightarrow> u32 \<Rightarrow> demo_meta" where
  "demo_zero ne nd = \<lparr>d_entries = ne, d_data = nd, d_count = 0, d_map = Map.empty\<rparr>"

definition demo_get :: "demo_meta option \<Rightarrow> demo_meta" where
  "demo_get m = (case m of None \<Rightarrow> demo_zero 0 0 | Some c \<Rightarrow> c)"

definition demo_camlib :: "demo_meta camlib" where
  "demo_camlib = \<lparr>
     cl_allocate = \<lambda>h ne nd. demo_new h (demo_zero ne nd),
     cl_clone = \<lambda>h src. (case src of None \<Rightarrow> None | Some m \<Rightarrow> demo_new h m),
     cl_checked_copy = \<lambda>h bs. demo_new h (demo_zero 1 1),
     cl_entry_count = \<lambda>m. d_count (demo_get m), cl_entry_capacity = \<lambda>m. d_entries (demo_get m),
     cl_data_count = \<lambda>m. 0, cl_data_capacity = \<lambda>m. d_data (demo_get m),
     cl_size = \<lambda>m. 0x100, cl_compact_size = \<lambda>m. 16, cl_alignment = 8,
     cl_append = \<lambda>m src. (if m = None then 1 else OK, (demo_get m)\<lparr>d_count := d_count (demo_get src), d_map := d_map (demo_get m) ++ d_map (demo_get src)\<rparr>),
     cl_sort = \<lambda>m. (OK, demo_get m),
     cl_find = \<lambda>m tag. (case d_map (demo_get m) tag of
         None \<Rightarrow> (NAME_NOT_FOUND, \<lparr>e_index = None, e_count = 0, e_data = Uninitialised\<rparr>)
       | Some (n, bs) \<Rightarrow> (OK, \<lparr>e_index = Some tag, e_count = n, e_data = DataAt bs\<rparr>)),
     cl_add = \<lambda>m tag bs n. (OK, (demo_get m)\<lparr>d_count := d_count (demo_get m) + 1, d_map := (d_map (demo_get m))(tag \<mapsto> (n, bs))\<rparr>),
     cl_update = \<lambda>m idx bs n. (OK, (demo_get m)\<lparr>d_map := (d_map (demo_get m))(the idx \<mapsto> (n, bs))\<rparr>),
     cl_delete = \<lambda>m idx. (OK, (demo_get m)\<lparr>d_count := d_count (demo_get m) - 1, d_map := (d_map (demo_get m))(the idx := None)\<rparr>),
     cl_copy = \<lambda>m. replicate 16 0,
     cl_tag_type = \<lambda>tag. 0, cl_type_code = \<lambda>ty. (if ty = TYPE_BYTE then 0 else 1),
     cl_data_size = \<lambda>ty n. 0\<rparr>"

lemma demo_fresh: "camlib_fresh demo_camlib"
  by (auto simp: camlib_fresh_def demo_camlib_def demo_new_def split: option.splits if_splits)

lemma demo_laws: "camlib_laws demo_camlib d_map"
  unfolding camlib_laws_def
  by (intro conjI allI)
    (auto simp: demo_camlib_def demo_new_def demo_zero_def demo_get_def split: option.splits if_splits)

lemma demo_alloc_ok: "h 0x2000 = None \<Longrightarrow> alloc_ok demo_camlib h"
  by (simp add: alloc_ok_def demo_camlib_def demo_new_def)

definition demo_world :: "demo_meta client" where
  "demo_world = \<lparr>cells = Map.empty, bad = False, mBuffer = \<lambda>i. 0, mLocked = \<lambda>i. False, held = {}, live = {}\<rparr>"

lemma demo_world_init: "cam_init demo_world"
  by (simp add: cam_init_def demo_world_def)

text \<open>Object 0 with one buffer.\<close>

definition demo_one :: "demo_meta client" where
  "demo_one = cam_step demo_camlib (NewCapacity 0 1 0) demo_world"

lemma demo_one_eq:
  "demo_one = demo_world\<lparr>cells := [0x1000 \<mapsto> demo_zero 1 0], mBuffer := (\<lambda>i. 0)(0 := 0x1000),
     mLocked := (\<lambda>i. False)(0 := False), live := {0}\<rparr>"
  by (simp add: demo_one_def construct_capacity_def op_simps demo_camlib_def demo_new_def demo_world_def)

lemma demo_one_inv: "own_inv ex demo_one"
  unfolding demo_one_def
  by (rule cam_step_inv [OF demo_fresh own_init [OF demo_world_init]])
    (simp_all add: demo_world_def demo_alloc_ok)

section \<open>Properties\<close>

text \<open>
  C5. Within the contract no call ever uses freed memory, and the buffers of the objects and of
  the client stay live and separate: for any library that allocates fresh addresses, and after
  any sequence of calls in which the client uses only constructed objects, gives away only
  buffers it holds, passes only live buffers to be read, appends no object to itself (see
  \<open>self_append_uses_freed_buffer\<close>) and passes no data that starts where the object's own buffer
  starts (see \<open>update_from_own_start_reads_freed\<close>). Data from further inside the own buffer
  is allowed: the code refuses it, and without that check this would be false.
\<close>

theorem metadata_memory_safe:
  assumes "camlib_fresh L" and "reach cam_guard (cam_step L) cam_init w"
  shows "\<not> bad w \<and> held w \<subseteq> dom (cells w) \<and>
    (\<forall>i \<in> live w. mBuffer w i \<noteq> 0 \<longrightarrow> mBuffer w i \<in> dom (cells w) - held w) \<and>
    inj_on (mBuffer w) {i \<in> live w. mBuffer w i \<noteq> 0}"
proof -
  have "own_inv False w" using cam_safe.reach_inv [OF assms(2)] assms(1) by blast
  then show ?thesis by (auto simp: own_inv_def owned_def inj_on_def)
qed

theorem metadata_memory_safe_witness:
  "\<not> bad (cam_step demo_camlib (Update TYPE_BYTE 0 5 0 [7] 1) demo_one) \<and>
   mBuffer demo_one 0 = 0x1000 \<and> \<not> bad (cam_step demo_camlib (Update TYPE_BYTE 0 5 0x1001 [7] 1) demo_one)"
proof -
  have b: "mBuffer demo_one 0 = 0x1000" "live demo_one = {0}" by (simp_all add: demo_one_eq)
  have r: "reach cam_guard (cam_step demo_camlib) cam_init demo_one"
    unfolding demo_one_def by (intro reach_step reach_init demo_world_init) (simp_all add: demo_world_def)
  have "reach cam_guard (cam_step demo_camlib) cam_init (cam_step demo_camlib (Update TYPE_BYTE 0 5 a [7] 1) demo_one)"
    if "a = 0 \<or> a = 0x1001" for a
    using that by (intro reach_step [OF r]) (auto simp: b)
  with metadata_memory_safe [OF demo_fresh] b show ?thesis by blast
qed

text \<open>
  C15. Nothing leaks as long as the allocation of new buffers succeeds and the calls keep the
  contract: every buffer on the heap belongs to a live object or to the client.
\<close>

theorem metadata_no_leak:
  assumes "camlib_fresh L"
    and "reach (\<lambda>e w. cam_guard e w \<and> alloc_ok L (cells w)) (cam_step L) cam_init w"
  shows "dom (cells w) = held w \<union> (mBuffer w ` live w - {0})"
proof -
  have "own_inv True w" using cam_tight.reach_inv [OF assms(2)] assms(1) by blast
  then show ?thesis by (fastforce simp: own_inv_def owned_def)
qed

theorem metadata_no_leak_witness:
  "dom (cells (cam_step demo_camlib (Release 0) demo_one)) =
     held (cam_step demo_camlib (Release 0) demo_one) \<union>
       (mBuffer (cam_step demo_camlib (Release 0) demo_one) ` live (cam_step demo_camlib (Release 0) demo_one) - {0})"
proof -
  have "alloc_ok demo_camlib (cells demo_one)" by (rule demo_alloc_ok) (simp add: demo_one_eq)
  moreover have "alloc_ok demo_camlib (cells demo_world)" by (rule demo_alloc_ok) (simp add: demo_world_def)
  ultimately have "reach (\<lambda>e w. cam_guard e w \<and> alloc_ok demo_camlib (cells w)) (cam_step demo_camlib) cam_init
      (cam_step demo_camlib (Release 0) demo_one)"
    unfolding demo_one_def
    by (intro reach_step reach_init demo_world_init) (simp_all add: demo_world_def)
  from metadata_no_leak [OF demo_fresh this] show ?thesis .
qed

text \<open>
  C13. An update is found again: on an unlocked object, with data of the tag's type that does
  not lie in the object's own buffer, sizes that do not overflow and memory for a new buffer,
  \<^verbatim>\<open>update\<close> succeeds, the contents change at that tag only, and \<^verbatim>\<open>find\<close> then gives the
  count and the data stored, whether the tag was there or not and whether the buffer had to grow
  or not; no freed memory is read. (The code refuses data further inside the own buffer. Data
  that starts exactly with the buffer it accepts; if the buffer grows then, what is stored was
  read from freed memory: see \<open>update_from_own_start_reads_freed\<close>.)
\<close>

theorem update_then_find:
  fixes tag a n :: u32
  assumes "camlib_laws L ent" and "camlib_fresh L" and "own_inv ex w" and "i \<in> live w" and "alloc_ok L (cells w)"
    and "\<not> mLocked w i" and "checkType L tag ty = OK"
    and "\<not> (mBuffer w i < a \<and> a < mBuffer w i + cl_size L (cells w (mBuffer w i)))"
    and "2 * (used (cl_entry_count L) (cells w (mBuffer w i)) + 1) < 2 ^ 32"
    and "2 * (used (cl_data_count L) (cells w (mBuffer w i)) + uint (cl_data_size L (cl_tag_type L tag) n)) < 2 ^ 32"
  shows "let w' = exec (update L ty i tag a bs n) w; found = result (find_entry L i tag) w' in
     result (update L ty i tag a bs n) w = OK \<and>
     contents ent i w' = (contents ent i w)(tag \<mapsto> (n, bs)) \<and>
     e_count found = n \<and> e_data found = DataAt bs \<and>
     (mBuffer w i = 0 \<or> a \<noteq> mBuffer w i \<longrightarrow> \<not> bad w')"
proof -
  define e where "e = cl_data_size L (cl_tag_type L tag) n"
  define u where "u = exec (resizeIfNeeded L i 1 e) w"
  from resize_room [OF assms(1-4) resize_memory [OF assms(2-5)], of 1 e] assms(9,10) obtain m where
    ok: "result (resizeIfNeeded L i 1 e) w = OK" and m: "cells u (mBuffer u i) = Some m" "ent m = contents ent i w"
    and room: "uint (cl_entry_count L (Some m)) + 1 \<le> uint (cl_entry_capacity L (Some m))"
      "uint (cl_data_count L (Some m)) + uint e \<le> uint (cl_data_capacity L (Some m))"
    unfolding e_def u_def by auto
  have ne: "cl_tag_type L tag \<noteq> - 1" using assms(7) by (auto simp: checkType_def Let_def split: if_splits)
  have own: "own_inv False u"
    unfolding u_def using assms(2-4) by (intro inv_resize) (auto simp: own_inv_def owned_def)
  have b: "mBuffer u i \<noteq> 0" using own_zero [OF own] m by auto
  have v: "valid (mBuffer u i) u" using m by (simp add: valid_def)
  have du: "deref (mBuffer u i) u = Some m" using b m by (simp add: deref_def)
  have lk: "mLocked u = mLocked w" unfolding u_def by (rule resize_keeps(3) [OF assms(2-4)])
  define r where "r = (if ent m tag = None then cl_add L (Some m) tag bs n
      else cl_update L (Some m) (e_index (snd (cl_find L (Some m) tag))) bs n)"
  have find: "case ent m' t of None \<Rightarrow> fst (cl_find L (Some m') t) = NAME_NOT_FOUND
      | Some (n, bs) \<Rightarrow> fst (cl_find L (Some m') t) = OK \<and>
          e_count (snd (cl_find L (Some m') t)) = n \<and> e_data (snd (cl_find L (Some m') t)) = DataAt bs" for m' t
    using assms(1) unfolding camlib_laws_def by blast
  have r: "fst r = OK" "ent (snd r) = (ent m)(tag \<mapsto> (n, bs))"
    using assms(1) room unfolding camlib_laws_def r_def e_def Let_def by auto
  define v where "v = exec (touch (data_home a (mBuffer w i) (cl_size L (cells w (mBuffer w i))))) u"
  have home: "\<not> bad v" if "mBuffer w i = 0 \<or> a \<noteq> mBuffer w i"
    using own data_apart [OF that assms(8)] by (simp add: v_def own_inv_def)
  have w': "exec (update L ty i tag a bs n) w = v\<lparr>cells := (cells u)(mBuffer u i \<mapsto> snd r)\<rparr>"
    "result (update L ty i tag a bs n) w = fst r"
    using find [of m tag] assms(3,4,6-8) ne ok b v m du
    by (auto simp: update_def updateImpl_def op_simps own_deref e_def [symmetric] u_def [symmetric] r_def v_def
        split: option.splits prod.splits)
  have vf: "mBuffer v = mBuffer u" "mLocked v = mLocked u" by (simp_all add: v_def)
  have "valid (mBuffer u i) (v\<lparr>cells := (cells u)(mBuffer u i \<mapsto> snd r)\<rparr>)" by (simp add: valid_def)
  then show ?thesis
    using r m b lk home assms(6) find [of "snd r" tag] unfolding Let_def w'
    by (cases "cl_find L (Some (snd r)) tag")
      (simp add: contents_def find_entry_def find_const_def op_simps deref_def vf)
qed

theorem update_then_find_witness:
  "e_data (result (find_entry demo_camlib 0 5) (exec (update demo_camlib TYPE_BYTE 0 5 0 [7] 1) demo_one)) = DataAt [7]"
proof -
  have "0 \<in> live demo_one" "\<not> mLocked demo_one 0" "alloc_ok demo_camlib (cells demo_one)"
    "checkType demo_camlib 5 TYPE_BYTE = OK"
    "\<not> (mBuffer demo_one 0 < 0 \<and> 0 < mBuffer demo_one 0 + cl_size demo_camlib (cells demo_one (mBuffer demo_one 0)))"
    "2 * (used (cl_entry_count demo_camlib) (cells demo_one (mBuffer demo_one 0)) + 1) < 2 ^ 32"
    "2 * (used (cl_data_count demo_camlib) (cells demo_one (mBuffer demo_one 0)) +
       uint (cl_data_size demo_camlib (cl_tag_type demo_camlib 5) 1)) < 2 ^ 32"
    by (simp_all add: demo_one_eq demo_alloc_ok checkType_def used_def)
      (simp_all add: demo_camlib_def demo_get_def demo_zero_def)
  from update_then_find [OF demo_laws demo_fresh demo_one_inv [of True] this(1,3,2,4-7), of "[7]"]
  show ?thesis by (simp add: Let_def)
qed

text \<open>
  C14. A locked object is frozen: until it is unlocked with the address it handed out or
  destroyed, no call within the contract on it or on any other object changes its buffer, the
  contents of that buffer or the lock.
\<close>

theorem locked_object_frozen:
  assumes "camlib_fresh L" and "own_inv ex w" and "cam_guard e w" and "j \<in> live w" and "mLocked w j"
    and "e \<noteq> Destroy j" and "e \<noteq> Unlock j (mBuffer w j)"
  shows "mLocked (cam_step L e w) j \<and> mBuffer (cam_step L e w) j = mBuffer w j \<and>
    cells (cam_step L e w) (mBuffer w j) = cells w (mBuffer w j)"
  using locked_step_same [OF assms] assms(5) by (simp add: same_object_def)

theorem locked_object_frozen_witness:
  "mLocked (cam_step demo_camlib (Unlock 0 0x2000) (cam_step demo_camlib (Lock 0) demo_one)) 0"
proof -
  let ?w = "cam_step demo_camlib (Lock 0) demo_one"
  have w: "0 \<in> live ?w" "mLocked ?w 0" "mBuffer ?w 0 = 0x1000"
    by (simp_all add: demo_one_eq getAndLock_def op_simps)
  have "own_inv True ?w"
    by (rule cam_step_inv [OF demo_fresh demo_one_inv]) (simp_all add: demo_one_eq demo_alloc_ok)
  from locked_object_frozen [OF demo_fresh this, of "Unlock 0 0x2000" 0] w show ?thesis
    by (simp del: cam_step.simps)
qed

text \<open>
  C30. When a growing buffer finds no memory, \<^verbatim>\<open>update\<close> reports it, but the object has
  lost its contents: it is empty afterwards, and its old buffer is still allocated and
  reachable from no object and not from the client.
\<close>

theorem failed_resize_leaks:
  fixes tag a n :: u32
  assumes "camlib_fresh L" and "own_inv ex w" and "i \<in> live w" and "mBuffer w i \<noteq> 0"
    and "\<not> mLocked w i" and "checkType L tag ty = OK"
    and "\<not> (mBuffer w i < a \<and> a < mBuffer w i + cl_size L (cells w (mBuffer w i)))"
    and "resize_plan L (cells w (mBuffer w i)) 1 (cl_data_size L (cl_tag_type L tag) n) = Some (ne, nd)"
    and "cl_allocate L (cells w) ne nd = None"
  shows "let w' = exec (update L ty i tag a bs n) w in
     result (update L ty i tag a bs n) w = NO_MEMORY \<and> mBuffer w' i = 0 \<and>
     mBuffer w i \<in> dom (cells w') \<and> mBuffer w i \<notin> held w' \<and> (\<forall>k \<in> live w'. mBuffer w' k \<noteq> mBuffer w i)"
proof -
  define e where "e = cl_data_size L (cl_tag_type L tag) n"
  have ne: "cl_tag_type L tag \<noteq> - 1" using assms(6) by (auto simp: checkType_def Let_def split: if_splits)
  have run: "run_state (resizeIfNeeded L i 1 e) w = (NO_MEMORY, w\<lparr>mBuffer := (mBuffer w)(i := 0)\<rparr>)"
    using assms(8,9) by (simp add: resize_run [OF assms(1-3)] e_def)
  then have r: "result (resizeIfNeeded L i 1 e) w = NO_MEMORY"
    "exec (resizeIfNeeded L i 1 e) w = w\<lparr>mBuffer := (mBuffer w)(i := 0)\<rparr>"
    by (simp_all add: result_def exec_def)
  have w': "exec (update L ty i tag a bs n) w = w\<lparr>mBuffer := (mBuffer w)(i := 0)\<rparr>"
    "result (update L ty i tag a bs n) w = NO_MEMORY"
    using assms(2,3,5-7) ne r
    by (auto simp: update_def updateImpl_def op_simps own_deref e_def [symmetric])
  have "mBuffer w k \<noteq> mBuffer w i" if "k \<in> live w" "k \<noteq> i" for k
    using other_buffer [OF assms(2,3), of k] that assms(4) by auto
  with assms(2-4) show ?thesis unfolding Let_def w'
    by (auto simp: own_inv_def owned_def)
qed

definition demo_full :: "demo_meta client" where
  "demo_full = cam_step demo_camlib (NewCapacity 1 0 0) (cam_step demo_camlib (NewCapacity 0 0 0) demo_world)"

lemma demo_full_eq:
  "mBuffer demo_full 0 = 0x1000" "mLocked demo_full 0 = False" "live demo_full = {1, 0}"
  "cells demo_full = [0x1000 \<mapsto> demo_zero 0 0, 0x2000 \<mapsto> demo_zero 0 0]"
  by (simp_all add: demo_full_def construct_capacity_def op_simps demo_camlib_def demo_new_def demo_world_def)

lemma demo_full_inv: "own_inv False demo_full"
  unfolding demo_full_def
  by (intro cam_step_inv [OF demo_fresh] own_init [OF demo_world_init]) (simp_all add: demo_world_def construct_capacity_def op_simps)

theorem failed_resize_leaks_witness:
  "result (update demo_camlib TYPE_BYTE 0 5 0 [7] 1) demo_full = NO_MEMORY"
proof -
  have "resize_plan demo_camlib (cells demo_full (mBuffer demo_full 0)) 1
      (cl_data_size demo_camlib (cl_tag_type demo_camlib 5) 1) = Some (2, 0)"
    "cl_allocate demo_camlib (cells demo_full) 2 0 = None" "checkType demo_camlib 5 TYPE_BYTE = OK"
    by (simp_all add: demo_full_eq resize_plan_def demo_camlib_def demo_get_def demo_zero_def demo_new_def checkType_def)
  from failed_resize_leaks [OF demo_fresh demo_full_inv _ _ _ this(3) _ this(1,2), of 0 "[7]"]
  show ?thesis by (simp add: demo_full_eq Let_def)
qed

definition demo_used :: "demo_meta client" where
  "demo_used = demo_one\<lparr>cells := [0x1000 \<mapsto> (demo_zero 1 0)\<lparr>d_count := 1, d_map := [5 \<mapsto> (1, [7])]\<rparr>]\<rparr>"

lemma demo_used_inv: "own_inv ex demo_used"
proof -
  let ?c = "(cells demo_one)(0x1000 \<mapsto> (demo_zero 1 0)\<lparr>d_count := 1, d_map := [5 \<mapsto> (1, [7])]\<rparr>)"
  have eq: "demo_used = demo_one\<lparr>cells := ?c\<rparr>" by (simp add: demo_used_def demo_one_eq)
  show ?thesis
    unfolding eq by (rule inv_cell [OF demo_one_inv]) (simp_all add: valid_def demo_one_eq)
qed

text \<open>
  The check against data in the own buffer misses its first address: data that starts there is
  accepted, and when the buffer grows it is read after the buffer was freed.
\<close>

lemma update_from_own_start_reads_freed:
  fixes tag n :: u32
  assumes "camlib_laws L ent" and "camlib_fresh L" and "own_inv ex w" and "i \<in> live w"
    and "\<not> mLocked w i" and "checkType L tag ty = OK" and "cells w (mBuffer w i) = Some m"
    and "mBuffer w i < mBuffer w i + cl_size L (Some m)"
    and "resize_plan L (Some m) 1 (cl_data_size L (cl_tag_type L tag) n) = Some (ne, nd)"
    and "cl_allocate L (cells w) ne nd = Some (p, c)"
  shows "bad (exec (update L ty i tag (mBuffer w i) bs n) w)"
proof -
  let ?b = "mBuffer w i"
  have b: "?b \<noteq> 0" using own_zero [OF assms(3)] assms(7) by auto
  have p: "p \<noteq> ?b" "p \<noteq> 0" using fresh_allocate [OF assms(2,10)] assms(7) by auto
  define e where "e = cl_data_size L (cl_tag_type L tag) n"
  define u where "u = exec (resizeIfNeeded L i 1 e) w"
  have ne: "cl_tag_type L tag \<noteq> - 1" using assms(6) by (auto simp: checkType_def Let_def split: if_splits)
  have r: "result (resizeIfNeeded L i 1 e) w = OK" "cells u ?b = None" "mBuffer u i = p" "cells u p \<noteq> None"
    using assms(7,9,10) p by (simp_all add: u_def result_def exec_def resize_run [OF assms(2-4)] e_def)
  have v: "valid p u" using r(4) by (auto simp: valid_def)
  obtain c' where c: "deref p u = Some c'" using r(4) p(2) by (auto simp: deref_def)
  have home: "data_home ?b ?b (cl_size L (Some m)) = ?b" using assms(8) by (simp add: data_home_def)
  have bad: "bad (exec (touch ?b) u)" using b r(2) by (simp add: touch_def)
  have stays: "bad (exec (lib_write q f) (exec (touch ?b) u))" for q f
    using bad by (simp add: lib_write_def touch_def op_simps)
  have "case ent c' tag of None \<Rightarrow> fst (cl_find L (Some c') tag) = NAME_NOT_FOUND
      | Some (n, bs) \<Rightarrow> fst (cl_find L (Some c') tag) = OK \<and>
          e_count (snd (cl_find L (Some c') tag)) = n \<and> e_data (snd (cl_find L (Some c') tag)) = DataAt bs"
    using assms(1) unfolding camlib_laws_def by blast
  then have "fst (cl_find L (Some c') tag) = NAME_NOT_FOUND \<or> fst (cl_find L (Some c') tag) = OK" by (auto split: option.splits)
  then show ?thesis
    using assms(3-7) ne r v c b stays
    by (cases "cl_find L (Some c') tag")
      (auto simp: update_def updateImpl_def op_simps own_deref e_def [symmetric] u_def [symmetric] home simp del: lib_write_valid)
qed

lemma update_from_own_start_witness:
  "bad (exec (update demo_camlib TYPE_BYTE 0 6 0x1000 [7] 1) demo_used)"
proof -
  have "bad (exec (update demo_camlib TYPE_BYTE 0 6 (mBuffer demo_used 0) [7] 1) demo_used)"
  proof (rule update_from_own_start_reads_freed [OF demo_laws demo_fresh demo_used_inv [of True]])
    show "cells demo_used (mBuffer demo_used 0) = Some ((demo_zero 1 0)\<lparr>d_count := 1, d_map := [5 \<mapsto> (1, [7])]\<rparr>)"
      by (simp add: demo_used_def demo_one_eq)
    show "resize_plan demo_camlib (Some ((demo_zero 1 0)\<lparr>d_count := 1, d_map := [5 \<mapsto> (1, [7])]\<rparr>)) 1
        (cl_data_size demo_camlib (cl_tag_type demo_camlib 6) 1) = Some (4, 0)"
      by (simp add: resize_plan_def demo_camlib_def demo_get_def demo_zero_def)
    show "cl_allocate demo_camlib (cells demo_used) 4 0 = Some (0x2000, demo_zero 4 0)"
      by (simp add: demo_camlib_def demo_new_def demo_used_def demo_one_eq)
  qed (simp_all add: demo_used_def demo_one_eq demo_camlib_def checkType_def)
  then show ?thesis by (simp add: demo_used_def demo_one_eq)
qed

text \<open>
  C31. Appending an object to itself is a use of freed memory whenever the append has to grow
  the buffer: the size is taken and the buffer freed before the append reads it.
\<close>

theorem self_append_uses_freed_buffer:
  assumes "camlib_fresh L" and "own_inv ex w" and "i \<in> live w" and "\<not> mLocked w i" and "cells w (mBuffer w i) = Some m"
    and "resize_plan L (Some m) (cl_entry_count L (Some m)) (cl_data_count L (Some m)) = Some (ne, nd)"
    and "cl_allocate L (cells w) ne nd \<noteq> None"
  shows "bad (exec (append_object L i i) w)"
proof -
  let ?b = "mBuffer w i"
  obtain p c where pc: "cl_allocate L (cells w) ne nd = Some (p, c)" using assms(7) by auto
  have b: "?b \<noteq> 0" using own_zero [OF assms(2)] assms(5) by auto
  have p: "p \<noteq> ?b" using fresh_allocate [OF assms(1) pc] assms(5) by auto
  define u where "u = exec (resizeIfNeeded L i (cl_entry_count L (Some m)) (cl_data_count L (Some m))) w"
  have "cells u ?b = None"
    using assms(5,6) pc p by (simp add: u_def exec_def resize_run [OF assms(1-3)])
  then have "bad (exec (touch ?b) u)" using b by (simp add: touch_def)
  moreover have "bad (exec (lib_write q f) v)" if "bad v" for q f and v :: "('a, 'b) client_scheme"
    using that by (simp add: lib_write_def touch_def op_simps)
  ultimately show ?thesis
    using assms(2-5) own_valid [OF assms(2,3)]
    by (simp add: append_object_def append_def op_simps own_deref u_def [symmetric] lib_read_def [of ?b id])
qed

theorem self_append_uses_freed_buffer_witness: "bad (exec (append_object demo_camlib 0 0) demo_used)"
proof (rule self_append_uses_freed_buffer [OF demo_fresh, where ex = True])
  show "own_inv True demo_used" by (rule demo_used_inv)
  show "cells demo_used (mBuffer demo_used 0) = Some ((demo_zero 1 0)\<lparr>d_count := 1, d_map := [5 \<mapsto> (1, [7])]\<rparr>)"
    by (simp add: demo_used_def demo_one_eq)
  show "resize_plan demo_camlib (Some ((demo_zero 1 0)\<lparr>d_count := 1, d_map := [5 \<mapsto> (1, [7])]\<rparr>))
      (cl_entry_count demo_camlib (Some ((demo_zero 1 0)\<lparr>d_count := 1, d_map := [5 \<mapsto> (1, [7])]\<rparr>)))
      (cl_data_count demo_camlib (Some ((demo_zero 1 0)\<lparr>d_count := 1, d_map := [5 \<mapsto> (1, [7])]\<rparr>))) = Some (4, 0)"
    by (simp add: resize_plan_def demo_camlib_def demo_get_def demo_zero_def)
qed (simp_all add: demo_used_def demo_one_eq demo_camlib_def demo_new_def)

end
