(* ===== verification/MetadataMaps.thy ===== *)
theory MetadataMaps
  imports CameraMetadata
begin

text \<open>
  The contract of the metadata wrapper: objects of \<^verbatim>\<open>shim/camera/CameraMetadata.cpp\<close> behave
  as maps from tags to a count and data, with a lock. The heap model of \<open>CameraMetadata\<close> is
  shown to simulate this specification call by call, with \<open>maps_of\<close> as the abstraction.
\<close>

section \<open>The specification\<close>

text \<open>
  What a client of the class sees: each object that exists has entries and a lock, and the client
  holds raw buffers, addresses that stand for entries.
\<close>

type_synonym entries = "u32 \<rightharpoonup> u32 \<times> bytes"

record maps =
  a_obj :: "nat \<Rightarrow> entries"
  a_lock :: "nat \<Rightarrow> bool"
  a_live :: "nat set"
  a_raw :: "addr \<rightharpoonup> entries"

definition put :: "nat \<Rightarrow> entries \<Rightarrow> maps \<Rightarrow> maps" where
  "put i m a = a\<lparr>a_obj := (a_obj a)(i := m)\<rparr>"

definition born :: "nat \<Rightarrow> entries \<Rightarrow> maps \<Rightarrow> maps" where
  "born i m a = a\<lparr>a_obj := (a_obj a)(i := m), a_lock := (a_lock a)(i := False), a_live := insert i (a_live a)\<rparr>"

definition raw :: "addr \<Rightarrow> maps \<Rightarrow> entries" where
  "raw b a = (case a_raw a b of None \<Rightarrow> Map.empty | Some m \<Rightarrow> m)"

definition taken :: "addr \<Rightarrow> maps \<Rightarrow> maps" where
  "taken b a = a\<lparr>a_raw := (a_raw a)(b := None)\<rparr>"

definition given :: "addr \<Rightarrow> entries \<Rightarrow> maps \<Rightarrow> maps" where
  "given b m a = a\<lparr>a_raw := (a_raw a)(b \<mapsto> m)\<rparr>"

text \<open>
  Storing an entry and joining other entries, on a locked object refused: they succeed with the
  new entries, or there is no memory and the entries are lost. Storing is also refused, with no
  change, where the tag has another type or the data lies in the object's own buffer.
\<close>

definition stored :: "nat \<Rightarrow> entries \<Rightarrow> maps \<Rightarrow> int \<Rightarrow> maps \<Rightarrow> bool" where
  "stored i m a r a' \<longleftrightarrow> r \<in> {INVALID_OPERATION, BAD_VALUE} \<and> a' = a \<or>
     \<not> a_lock a i \<and> (r = OK \<and> a' = put i m a \<or> r = NO_MEMORY \<and> a' = put i Map.empty a)"

definition joined :: "nat \<Rightarrow> entries \<Rightarrow> maps \<Rightarrow> int \<Rightarrow> maps \<Rightarrow> bool" where
  "joined i m a r a' \<longleftrightarrow>
     (if a_lock a i then r = INVALID_OPERATION \<and> a' = a
      else r = OK \<and> a' = put i m a \<or> r \<noteq> OK \<and> a' = put i Map.empty a)"

text \<open>What each call may do; a constructor or an assignment that finds no memory leaves its object empty.\<close>

fun map_spec :: "cam_event \<Rightarrow> maps \<Rightarrow> int \<Rightarrow> maps \<Rightarrow> bool" where
  "map_spec (NewEmpty i) a r a' = (a' = born i Map.empty a)"
| "map_spec (NewCapacity i e d) a r a' = (a' = born i Map.empty a)"
| "map_spec (NewCopy i j) a r a' = (a' = born i (a_obj a j) a \<or> a' = born i Map.empty a)"
| "map_spec (NewRaw i b) a r a' = (a' = taken b (born i (raw b a) a))"
| "map_spec (Destroy i) a r a' =
     (a' = (put i Map.empty a)\<lparr>a_lock := (a_lock a)(i := False), a_live := a_live a - {i}\<rparr>)"
| "map_spec (Assign i b) a r a' =
     (if a_lock a i then a' = a else a' = put i (raw b a) a \<or> a' = put i Map.empty a)"
| "map_spec (AssignObject i j) a r a' =
     (if a_lock a i then a' = a else a' = put i (a_obj a j) a \<or> a' = put i Map.empty a)"
| "map_spec (Lock i) a r a' = (a' = a\<lparr>a_lock := (a_lock a)(i := True)\<rparr>)"
| "map_spec (Unlock i b) a r a' =
     (if r = OK then a_lock a i \<and> a' = a\<lparr>a_lock := (a_lock a)(i := False)\<rparr> else a' = a)"
| "map_spec (Release i) a r a' =
     (if a_lock a i then a' = a
      else a_obj a i = Map.empty \<and> a' = a \<or> (\<exists>p. p \<noteq> 0 \<and> a_raw a p = None \<and> a' = given p (a_obj a i) (put i Map.empty a)))"
| "map_spec (Clear i) a r a' = (if a_lock a i then a' = a else a' = put i Map.empty a)"
| "map_spec (Acquire i b) a r a' = (if a_lock a i then a' = a else a' = taken b (put i (raw b a) a))"
| "map_spec (AcquireObject i j) a r a' =
     (if a_lock a i then a' = a
      else if a_lock a j then a' = put i Map.empty a
      else a' = put i (a_obj a j) (put j Map.empty a))"
| "map_spec (Swap i j) a r a' =
     (if a_lock a i \<or> a_lock a j then a' = a else a' = put i (a_obj a j) (put j (a_obj a i) a))"
| "map_spec (Append i b) a r a' = joined i (a_obj a i ++ raw b a) a r a'"
| "map_spec (AppendObject i j) a r a' = joined i (a_obj a i ++ a_obj a j) a r a'"
| "map_spec (Sort i) a r a' = (a' = a)"
| "map_spec (Update ty i tag d bs n) a r a' = stored i ((a_obj a i)(tag \<mapsto> (n, bs))) a r a'"
| "map_spec (UpdateString i tag d bs) a r a' =
     stored i ((a_obj a i)(tag \<mapsto> (word_of_nat (length bs) + 1, bs @ [0]))) a r a'"
| "map_spec (Erase i tag) a r a' =
     (if a_lock a i then r = INVALID_OPERATION \<and> a' = a
      else r = OK \<and> a' = put i ((a_obj a i)(tag := None)) a \<or> r \<noteq> OK \<and> a_obj a i = Map.empty \<and> a' = a)"
| "map_spec (EntryCount i) a r a' = (a' = a)"
| "map_spec (Exists i tag) a r a' = (a' = a)"
| "map_spec (Find i tag) a r a' = (a' = a)"
| "map_spec (FindConst i tag) a r a' = (a' = a)"
| "map_spec (Dump i) a r a' = (a' = a)"

text \<open>The status a call returns; the others return nothing or are queries.\<close>

fun cam_answer :: "'m camlib \<Rightarrow> cam_event \<Rightarrow> ('m, 'a) client_scheme \<Rightarrow> int" where
  "cam_answer L (Unlock i b) w = result (unlock i b) w"
| "cam_answer L (Append i b) w = result (append L i b) w"
| "cam_answer L (AppendObject i j) w = result (append_object L i j) w"
| "cam_answer L (Sort i) w = result (sort_metadata L i) w"
| "cam_answer L (Update ty i tag d bs n) w = result (update L ty i tag d bs n) w"
| "cam_answer L (UpdateString i tag d bs) w = result (update_string L i tag d bs) w"
| "cam_answer L (Erase i tag) w = result (erase L i tag) w"
| "cam_answer L _ w = OK"

section \<open>The abstraction\<close>

definition view :: "('m \<Rightarrow> entries) \<Rightarrow> (addr \<rightharpoonup> 'm) \<Rightarrow> (nat \<Rightarrow> addr) \<Rightarrow> (nat \<Rightarrow> bool) \<Rightarrow> addr set \<Rightarrow> nat set \<Rightarrow> maps" where
  "view ent c B K H S = \<lparr>
     a_obj = \<lambda>i. if i \<in> S then (case c (B i) of None \<Rightarrow> Map.empty | Some m \<Rightarrow> ent m) else Map.empty,
     a_lock = \<lambda>i. i \<in> S \<and> K i, a_live = S, a_raw = \<lambda>p. if p \<in> H then map_option ent (c p) else None\<rparr>"

definition maps_of :: "('m \<Rightarrow> entries) \<Rightarrow> ('m, 'a) client_scheme \<Rightarrow> maps" where
  "maps_of ent w = view ent (cells w) (mBuffer w) (mLocked w) (held w) (live w)"

section \<open>The moves of buffers, seen as entries\<close>

text \<open>One lemma for each of the state updates that the operations of the class are made of.\<close>

lemma live_distinct:
  "own_inv ex w \<Longrightarrow> i \<in> live w \<Longrightarrow> j \<in> live w \<Longrightarrow> j \<noteq> i \<Longrightarrow> mBuffer w j = mBuffer w i \<Longrightarrow> mBuffer w i = 0"
  unfolding own_inv_def owned_def by metis

lemma held_cell: "own_inv ex w \<Longrightarrow> p \<in> held w \<Longrightarrow> cells w p \<noteq> None"
  by (auto simp: own_inv_def owned_def)

lemma live_cell: "own_inv ex w \<Longrightarrow> i \<in> live w \<Longrightarrow> mBuffer w i \<noteq> 0 \<Longrightarrow> cells w (mBuffer w i) \<noteq> None"
  unfolding own_inv_def owned_def by metis

lemma null_cell: "own_inv ex w \<Longrightarrow> cells w 0 = None"
  by (rule own_zero)

lemma maps_free:
  assumes "own_inv ex w" "i \<in> live w"
  shows "maps_of ent (w\<lparr>cells := (cells w)(mBuffer w i := None), mBuffer := (mBuffer w)(i := 0)\<rparr>) =
     put i Map.empty (maps_of ent w)"
  using held_not_buffer [OF assms(1) _ assms(2)] null_cell [OF assms(1)]
  by (auto simp: maps_of_def view_def put_def contents_def fun_eq_iff split: option.split dest: live_distinct [OF assms])

lemma maps_lose:
  assumes "own_inv ex w" "i \<in> live w"
  shows "maps_of ent (w\<lparr>mBuffer := (mBuffer w)(i := 0)\<rparr>) = put i Map.empty (maps_of ent w)"
  using assms null_cell [OF assms(1)] by (auto simp: maps_of_def view_def put_def contents_def fun_eq_iff split: option.split)

lemma maps_fill:
  assumes "own_inv ex w" "i \<in> live w" "cells w p = None" "p \<noteq> 0"
  shows "maps_of ent (w\<lparr>cells := (cells w)(p \<mapsto> m, mBuffer w i := None), mBuffer := (mBuffer w)(i := p)\<rparr>) =
     put i (ent m) (maps_of ent w)"
proof -
  have "p \<notin> held w" using held_cell [OF assms(1)] assms(3) by metis
  moreover have "mBuffer w j \<noteq> p" if "j \<in> live w" for j using live_cell [OF assms(1) that] assms(3,4) by auto
  ultimately show ?thesis
    using held_not_buffer [OF assms(1) _ assms(2)] null_cell [OF assms(1)] assms(2,4)
    by (auto simp: maps_of_def view_def put_def contents_def fun_eq_iff split: option.split dest: live_distinct [OF assms(1,2)])
qed

lemma maps_write:
  assumes "own_inv ex w" "i \<in> live w" "mBuffer w i \<noteq> 0"
  shows "maps_of ent (w\<lparr>cells := (cells w)(mBuffer w i \<mapsto> m)\<rparr>) = put i (ent m) (maps_of ent w)"
  using held_not_buffer [OF assms(1) _ assms(2)] null_cell [OF assms(1)] assms(2,3)
  by (auto simp: maps_of_def view_def put_def contents_def fun_eq_iff split: option.split dest: live_distinct [OF assms(1,2)])


lemma maps_drop:
  assumes "own_inv ex w" "i \<in> live w" "mBuffer w i \<noteq> 0"
  shows "maps_of ent (w\<lparr>mBuffer := (mBuffer w)(i := 0), held := insert (mBuffer w i) (held w)\<rparr>) =
     given (mBuffer w i) (a_obj (maps_of ent w) i) (put i Map.empty (maps_of ent w))"
  using live_cell [OF assms] null_cell [OF assms(1)] assms(2)
  by (auto simp: maps_of_def view_def put_def given_def contents_def fun_eq_iff split: option.split)

lemma raw_maps: "b \<in> held w \<Longrightarrow> raw b (maps_of ent w) = (case cells w b of None \<Rightarrow> Map.empty | Some m \<Rightarrow> ent m)"
  "own_inv ex w \<Longrightarrow> raw 0 (maps_of ent w) = Map.empty"
  by (auto simp: raw_def maps_of_def view_def own_inv_def owned_def split: option.split)

lemma maps_take:
  assumes "own_inv ex w" "i \<in> live w" "mBuffer w i = 0" "b = 0 \<or> b \<in> held w"
  shows "maps_of ent (w\<lparr>mBuffer := (mBuffer w)(i := b), held := held w - {b}\<rparr>) = taken b (put i (raw b (maps_of ent w)) (maps_of ent w))"
  using assms null_cell [OF assms(1)]
  by (auto simp: maps_of_def view_def put_def taken_def contents_def raw_def fun_eq_iff split: option.split)

lemma maps_swap:
  assumes "i \<in> live w" "j \<in> live w"
  shows "maps_of ent (w\<lparr>mBuffer := (mBuffer w)(j := mBuffer w i, i := mBuffer w j)\<rparr>) =
     put i (a_obj (maps_of ent w) j) (put j (a_obj (maps_of ent w) i) (maps_of ent w))"
  using assms by (auto simp: maps_of_def view_def put_def contents_def fun_eq_iff split: option.split)

lemma maps_born:
  assumes "own_inv ex w" "i \<notin> live w"
  shows "maps_of ent (w\<lparr>mBuffer := (mBuffer w)(i := 0), mLocked := (mLocked w)(i := False), live := insert i (live w)\<rparr>) =
     born i Map.empty (maps_of ent w)"
  using assms(2) null_cell [OF assms(1)] by (auto simp: maps_of_def view_def born_def contents_def fun_eq_iff split: option.split)

lemma maps_gone:
  "i \<in> live w \<Longrightarrow> maps_of ent (w\<lparr>live := live w - {i}\<rparr>) =
     (put i Map.empty (maps_of ent w))\<lparr>a_lock := (a_lock (maps_of ent w))(i := False), a_live := a_live (maps_of ent w) - {i}\<rparr>"
  by (auto simp: maps_of_def view_def put_def contents_def fun_eq_iff)

lemma maps_lock:
  "i \<in> live w \<Longrightarrow> maps_of ent (w\<lparr>mLocked := (mLocked w)(i := l)\<rparr>) = (maps_of ent w)\<lparr>a_lock := (a_lock (maps_of ent w))(i := l)\<rparr>"
  by (auto simp: maps_of_def view_def contents_def fun_eq_iff)

lemma maps_fields [simp]:
  "i \<in> live w \<Longrightarrow> a_obj (maps_of ent w) i = contents ent i w" "i \<in> live w \<Longrightarrow> a_lock (maps_of ent w) i = mLocked w i"
  "a_live (maps_of ent w) = live w"
  by (simp_all add: maps_of_def view_def contents_def)

lemma put_same [simp]: "put i (a_obj a i) a = a" "put i m (put i m' a) = put i m a"
  by (simp_all add: put_def)

lemma put_contents [simp]: "i \<in> live w \<Longrightarrow> put i (contents ent i w) (maps_of ent w) = maps_of ent w"
  using put_same(1) [of i "maps_of ent w"] by simp

section \<open>The library\<close>

text \<open>
  The laws of \<open>camlib_laws\<close> and, on buffers in which no tag occurs twice (\<open>good\<close>): appending
  entries with other tags joins them where there is room; deleting takes the entry out; sorting
  keeps the entries; a clone has the same entries; no call makes a good buffer bad. On null
  pointers, cloning gives none, appending to one and finding in one fail.
\<close>

definition append_law :: "'m camlib \<Rightarrow> ('m \<Rightarrow> entries) \<Rightarrow> ('m \<Rightarrow> bool) \<Rightarrow> bool" where
  "append_law L ent good \<longleftrightarrow> (\<forall>m m'. good m \<longrightarrow> good m' \<longrightarrow> dom (ent m) \<inter> dom (ent m') = {} \<longrightarrow>
     (let r = cl_append L (Some m) (Some m') in good (snd r) \<and>
       (uint (cl_entry_count L (Some m)) + uint (cl_entry_count L (Some m')) \<le> uint (cl_entry_capacity L (Some m)) \<longrightarrow>
        uint (cl_data_count L (Some m)) + uint (cl_data_count L (Some m')) \<le> uint (cl_data_capacity L (Some m)) \<longrightarrow>
        fst r = OK \<and> ent (snd r) = ent m ++ ent m')))"

definition delete_law :: "'m camlib \<Rightarrow> ('m \<Rightarrow> entries) \<Rightarrow> ('m \<Rightarrow> bool) \<Rightarrow> bool" where
  "delete_law L ent good \<longleftrightarrow> (\<forall>m tag. good m \<longrightarrow> ent m tag \<noteq> None \<longrightarrow>
     (let r = cl_delete L (Some m) (e_index (snd (cl_find L (Some m) tag)))
      in fst r = OK \<and> ent (snd r) = (ent m)(tag := None) \<and> good (snd r)))"

definition clone_law :: "'m camlib \<Rightarrow> ('m \<Rightarrow> entries) \<Rightarrow> ('m \<Rightarrow> bool) \<Rightarrow> bool" where
  "clone_law L ent good \<longleftrightarrow>
     (\<forall>h m p m'. cl_clone L h (Some m) = Some (p, m') \<longrightarrow> ent m' = ent m \<and> (good m \<longrightarrow> good m'))"

definition keeps_good :: "'m camlib \<Rightarrow> ('m \<Rightarrow> entries) \<Rightarrow> ('m \<Rightarrow> bool) \<Rightarrow> bool" where
  "keeps_good L ent good \<longleftrightarrow>
     (\<forall>h ne nd p m. cl_allocate L h ne nd = Some (p, m) \<longrightarrow> good m) \<and>
     (\<forall>m tag bs n. good m \<longrightarrow> ent m tag = None \<longrightarrow> good (snd (cl_add L (Some m) tag bs n))) \<and>
     (\<forall>m tag bs n. good m \<longrightarrow> ent m tag \<noteq> None \<longrightarrow>
        good (snd (cl_update L (Some m) (e_index (snd (cl_find L (Some m) tag))) bs n))) \<and>
     (\<forall>m. good m \<longrightarrow> ent (snd (cl_sort L (Some m))) = ent m \<and> good (snd (cl_sort L (Some m))))"

definition null_laws :: "'m camlib \<Rightarrow> bool" where
  "null_laws L \<longleftrightarrow> (\<forall>h. cl_clone L h None = None) \<and> (\<forall>src. fst (cl_append L None src) \<noteq> OK) \<and>
     (\<forall>tag. fst (cl_find L None tag) \<noteq> OK)"

definition map_laws :: "'m camlib \<Rightarrow> ('m \<Rightarrow> entries) \<Rightarrow> ('m \<Rightarrow> bool) \<Rightarrow> bool" where
  "map_laws L ent good \<longleftrightarrow> camlib_laws L ent \<and> camlib_fresh L \<and> append_law L ent good \<and>
     delete_law L ent good \<and> clone_law L ent good \<and> keeps_good L ent good \<and> null_laws L"

definition all_good :: "('m \<Rightarrow> bool) \<Rightarrow> (addr \<rightharpoonup> 'm) \<Rightarrow> bool" where
  "all_good good c \<longleftrightarrow> (\<forall>p m. c p = Some m \<longrightarrow> good m)"

lemma all_good_upd [simp]:
  "all_good good c \<Longrightarrow> all_good good (c(p := None))" "all_good good c \<Longrightarrow> good m \<Longrightarrow> all_good good (c(p \<mapsto> m))"
  by (auto simp: all_good_def)

text \<open>The invariant: ownership as in \<open>CameraMetadata\<close>, and every buffer is good.\<close>

definition tidy :: "('m \<Rightarrow> bool) \<Rightarrow> ('m, 'a) client_scheme \<Rightarrow> bool" where
  "tidy good w \<longleftrightarrow> own_inv False w \<and> all_good good (cells w)"

lemma law_parts:
  assumes "map_laws L ent good"
  shows "camlib_laws L ent" "camlib_fresh L" "append_law L ent good" "delete_law L ent good" "clone_law L ent good"
    "keeps_good L ent good" "null_laws L"
  using assms by (simp_all add: map_laws_def)

text \<open>The laws as rules.\<close>

lemma law_append:
  assumes "append_law L ent good" "good m" "good m'" "dom (ent m) \<inter> dom (ent m') = {}"
  shows "good (snd (cl_append L (Some m) (Some m')))"
    "uint (cl_entry_count L (Some m)) + uint (cl_entry_count L (Some m')) \<le> uint (cl_entry_capacity L (Some m)) \<Longrightarrow>
     uint (cl_data_count L (Some m)) + uint (cl_data_count L (Some m')) \<le> uint (cl_data_capacity L (Some m)) \<Longrightarrow>
       fst (cl_append L (Some m) (Some m')) = OK \<and> ent (snd (cl_append L (Some m) (Some m'))) = ent m ++ ent m'"
  using assms unfolding append_law_def Let_def by blast+

lemma law_keeps:
  assumes "keeps_good L ent good"
  shows "cl_allocate L h ne nd = Some (p, m) \<Longrightarrow> good m"
    "good m \<Longrightarrow> ent m tag = None \<Longrightarrow> good (snd (cl_add L (Some m) tag bs n))"
    "good m \<Longrightarrow> ent m tag \<noteq> None \<Longrightarrow> good (snd (cl_update L (Some m) (e_index (snd (cl_find L (Some m) tag))) bs n))"
    "good m \<Longrightarrow> ent (snd (cl_sort L (Some m))) = ent m" "good m \<Longrightarrow> good (snd (cl_sort L (Some m)))"
  using assms unfolding keeps_good_def by blast+

lemma law_delete:
  assumes "delete_law L ent good" "good m" "ent m tag \<noteq> None"
  defines "r \<equiv> cl_delete L (Some m) (e_index (snd (cl_find L (Some m) tag)))"
  shows "fst r = OK" "ent (snd r) = (ent m)(tag := None)" "good (snd r)"
  using assms(1-3) unfolding delete_law_def Let_def r_def by blast+

lemma law_find:
  assumes "camlib_laws L ent"
  shows "ent m tag = None \<Longrightarrow> fst (cl_find L (Some m) tag) = NAME_NOT_FOUND"
    "ent m tag = Some (n, bs) \<Longrightarrow> fst (cl_find L (Some m) tag) = OK \<and>
       e_count (snd (cl_find L (Some m) tag)) = n \<and> e_data (snd (cl_find L (Some m) tag)) = DataAt bs"
proof -
  from assms have "case ent m tag of
        None \<Rightarrow> fst (cl_find L (Some m) tag) = NAME_NOT_FOUND
      | Some (n, bs) \<Rightarrow> fst (cl_find L (Some m) tag) = OK \<and>
          e_count (snd (cl_find L (Some m) tag)) = n \<and> e_data (snd (cl_find L (Some m) tag)) = DataAt bs"
    unfolding camlib_laws_def by blast
  then show "ent m tag = None \<Longrightarrow> fst (cl_find L (Some m) tag) = NAME_NOT_FOUND"
    "ent m tag = Some (n, bs) \<Longrightarrow> fst (cl_find L (Some m) tag) = OK \<and>
       e_count (snd (cl_find L (Some m) tag)) = n \<and> e_data (snd (cl_find L (Some m) tag)) = DataAt bs"
    by simp_all
qed

lemma law_store:
  assumes "camlib_laws L ent"
    and "uint (cl_data_count L (Some m)) + uint (cl_data_size L (cl_tag_type L tag) n) \<le> uint (cl_data_capacity L (Some m))"
  shows "ent m tag = None \<Longrightarrow> uint (cl_entry_count L (Some m)) < uint (cl_entry_capacity L (Some m)) \<Longrightarrow>
      fst (cl_add L (Some m) tag bs n) = OK \<and> ent (snd (cl_add L (Some m) tag bs n)) = (ent m)(tag \<mapsto> (n, bs))"
    "ent m tag \<noteq> None \<Longrightarrow> fst (cl_update L (Some m) (e_index (snd (cl_find L (Some m) tag))) bs n) = OK \<and>
      ent (snd (cl_update L (Some m) (e_index (snd (cl_find L (Some m) tag))) bs n)) = (ent m)(tag \<mapsto> (n, bs))"
  using assms unfolding camlib_laws_def Let_def by blast+

lemma tidy_own: "tidy good w \<Longrightarrow> own_inv False w"
  by (simp add: tidy_def)

lemma tidy_cell: "tidy good w \<Longrightarrow> cells w p = Some m \<Longrightarrow> good m"
  by (simp add: tidy_def all_good_def)

text \<open>Sizes that \<^verbatim>\<open>resizeIfNeeded\<close> can double without overflow.\<close>

definition fits :: "'m camlib \<Rightarrow> nat \<Rightarrow> u32 \<Rightarrow> u32 \<Rightarrow> ('m, 'a) client_scheme \<Rightarrow> bool" where
  "fits L i e d w \<longleftrightarrow> 2 * (used (cl_entry_count L) (cells w (mBuffer w i)) + uint e) < 2 ^ 32 \<and>
     2 * (used (cl_data_count L) (cells w (mBuffer w i)) + uint d) < 2 ^ 32"

lemma allocated_empty:
  "camlib_laws L ent \<Longrightarrow> cl_allocate L h ne nd = Some (p, m) \<Longrightarrow> ent m = Map.empty"
  unfolding camlib_laws_def by blast

lemma resize_good:
  fixes e d :: u32
  assumes "map_laws L ent good" "tidy good w" "i \<in> live w"
  shows "tidy good (exec (resizeIfNeeded L i e d) w)"
proof -
  note own = tidy_own [OF assms(2)] and fresh = law_parts(2) [OF assms(1)] and laws = law_parts(1) [OF assms(1)]
  have "good (if cells w (mBuffer w i) = None then n else snd (cl_append L (Some n) (cells w (mBuffer w i))))"
    if "cl_allocate L (cells w) ne nd = Some (p, n)" for p n ne nd
    using law_keeps(1) [OF law_parts(6) [OF assms(1)] that] allocated_empty [OF laws that] tidy_cell [OF assms(2)]
    by (cases "cells w (mBuffer w i)") (auto intro!: law_append(1) [OF law_parts(3) [OF assms(1)]])
  then have "all_good good (cells (exec (resizeIfNeeded L i e d) w))"
    using assms(2) by (simp add: tidy_def exec_def resize_run [OF fresh own assms(3)] split: option.split)
  with inv_resize [OF fresh own assms(3)] show ?thesis by (simp add: tidy_def)
qed

text \<open>A resize changes no entries and makes room, or finds no memory and loses the entries.\<close>

lemma resize_maps:
  fixes e d :: u32
  assumes "map_laws L ent good" "tidy good w" "i \<in> live w" "fits L i e d w"
  defines "u \<equiv> exec (resizeIfNeeded L i e d) w" and "r \<equiv> result (resizeIfNeeded L i e d) w"
  shows "r = NO_MEMORY \<and> maps_of ent u = put i Map.empty (maps_of ent w) \<and> mBuffer u i = 0 \<or>
    r = OK \<and> maps_of ent u = maps_of ent w \<and>
     (\<exists>m. cells u (mBuffer u i) = Some m \<and> good m \<and> ent m = contents ent i w \<and>
       uint (cl_entry_count L (Some m)) + uint e \<le> uint (cl_entry_capacity L (Some m)) \<and>
       uint (cl_data_count L (Some m)) + uint d \<le> uint (cl_data_capacity L (Some m)))"
proof -
  note own = tidy_own [OF assms(2)] and fresh = law_parts(2) [OF assms(1)] and laws = law_parts(1) [OF assms(1)]
  note run = resize_run [OF fresh own assms(3), of e d]
  note tidy = resize_good [OF assms(1-3), of e d, folded u_def]
  show ?thesis
  proof (cases "r = NO_MEMORY")
    case True
    with run have "u = w\<lparr>mBuffer := (mBuffer w)(i := 0)\<rparr>"
      by (auto simp: u_def r_def exec_def result_def split: option.splits)
    with True maps_lose [OF own assms(3)] show ?thesis by simp
  next
    case False
    from resize_room [OF laws fresh own assms(3) False [unfolded r_def]] assms(4) obtain m where
      m: "r = OK" "cells u (mBuffer u i) = Some m" "ent m = contents ent i w"
        "uint (cl_entry_count L (Some m)) + uint e \<le> uint (cl_entry_capacity L (Some m))"
        "uint (cl_data_count L (Some m)) + uint d \<le> uint (cl_data_capacity L (Some m))"
      unfolding u_def r_def fits_def by metis
    have "maps_of ent u = maps_of ent w"
    proof (cases "u = w")
      case False
      with run obtain ne nd p n where pn: "cl_allocate L (cells w) ne nd = Some (p, n)"
        and r: "resize_plan L (cells w (mBuffer w i)) e d = Some (ne, nd)"
        using m(1) by (auto simp: u_def r_def exec_def result_def split: option.splits)
      from pn have p: "cells w p = None" "p \<noteq> 0" by (auto dest: fresh_allocate [OF fresh])
      define c where "c = (if cells w (mBuffer w i) = None then n else snd (cl_append L (Some n) (cells w (mBuffer w i))))"
      have u: "u = w\<lparr>cells := (cells w)(p \<mapsto> c, mBuffer w i := None), mBuffer := (mBuffer w)(i := p)\<rparr>"
        using run pn r by (simp add: u_def exec_def c_def)
      have "p \<noteq> mBuffer w i" using live_cell [OF own assms(3)] p by auto
      then have "c = m" using m(2) u by simp
      with maps_fill [OF own assms(3) p, of ent m] u m(3) assms(3) show ?thesis by simp
    qed simp
    with m tidy_cell [OF tidy m(2)] show ?thesis by blast
  qed
qed

section \<open>Each call does what the specification allows\<close>

definition simulated ::
    "'m camlib \<Rightarrow> ('m \<Rightarrow> entries) \<Rightarrow> ('m \<Rightarrow> bool) \<Rightarrow> cam_event \<Rightarrow> ('m, 'a) client_scheme \<Rightarrow> bool" where
  "simulated L ent good e w \<longleftrightarrow> map_spec e (maps_of ent w) (cam_answer L e w) (maps_of ent (cam_step L e w)) \<and>
     all_good good (cells (cam_step L e w))"

lemma tidy_good: "tidy good w \<Longrightarrow> all_good good (cells w)"
  by (simp add: tidy_def)

lemma put_born [simp]: "put i m (born i m' a) = born i m a"
  by (simp add: put_def born_def)

text \<open>Construction: first an object without a buffer, then the buffer.\<close>

abbreviation new_object :: "nat \<Rightarrow> ('m, 'a) client_scheme \<Rightarrow> ('m, 'a) client_scheme" where
  "new_object i w \<equiv> w\<lparr>mBuffer := (mBuffer w)(i := 0), mLocked := (mLocked w)(i := False), live := insert i (live w)\<rparr>"

lemma new_object_own: "own_inv ex w \<Longrightarrow> i \<notin> live w \<Longrightarrow> own_inv ex (new_object i w)"
  using own_new [of ex w i] by (simp add: own_inv_def)

lemma maps_new_filled:
  assumes "own_inv ex w" "i \<notin> live w" "cells w p = None" "p \<noteq> 0"
  shows "maps_of ent (w\<lparr>cells := (cells w)(p \<mapsto> m), mBuffer := (mBuffer w)(i := p), mLocked := (mLocked w)(i := False),
      live := insert i (live w)\<rparr>) = born i (ent m) (maps_of ent w)"
proof -
  have "(cells w)(p \<mapsto> m, 0 := None) = (cells w)(p \<mapsto> m)" using null_cell [OF assms(1)] assms(4) by (auto simp: fun_eq_iff)
  with maps_fill [OF new_object_own [OF assms(1,2)], of i p ent m] assms(3,4) show ?thesis
    using maps_born [OF assms(1,2), of ent] by (simp add: maps_of_def)
qed

lemma new_empty_sim:
  "tidy good w \<Longrightarrow> i \<notin> live w \<Longrightarrow> simulated L ent good (NewEmpty i) w"
  by (simp add: simulated_def construct_empty_def op_simps maps_born [OF tidy_own] tidy_good)

lemma new_capacity_sim:
  assumes "map_laws L ent good" "tidy good w" "i \<notin> live w"
  shows "simulated L ent good (NewCapacity i e d) w"
proof (cases "cl_allocate L (cells w) e d")
  case None
  with assms(2) maps_born [OF tidy_own [OF assms(2)] assms(3), of ent] show ?thesis
    by (simp add: simulated_def construct_capacity_def op_simps maps_of_def tidy_good)
next
  case (Some pm)
  obtain p m where pm: "pm = (p, m)" by (cases pm)
  with Some have p: "p \<noteq> 0" "cells w p = None" using fresh_allocate [OF law_parts(2) [OF assms(1)]] by auto
  have "ent m = Map.empty" "good m"
    using Some pm allocated_empty [OF law_parts(1) [OF assms(1)]] law_keeps(1) [OF law_parts(6) [OF assms(1)]] by auto
  with Some pm assms maps_new_filled [OF tidy_own [OF assms(2)] assms(3) p(2,1), of ent m] show ?thesis
    by (simp add: simulated_def construct_capacity_def op_simps tidy_good maps_of_def)
qed

lemma law_clone:
  assumes "clone_law L ent good" "null_laws L" "cl_clone L h src = Some (p, n)"
  obtains m where "src = Some m" "ent n = ent m" "good m \<Longrightarrow> good n"
  using assms unfolding clone_law_def null_laws_def by (cases src) auto

lemma new_copy_sim:
  assumes "map_laws L ent good" "tidy good w" "i \<notin> live w" "j \<in> live w"
  shows "simulated L ent good (NewCopy i j) w"
proof -
  note own = tidy_own [OF assms(2)]
  have v: "valid (mBuffer w j) (w\<lparr>mLocked := l\<rparr>)" for l using own_valid [OF own assms(4)] by (simp add: valid_def)
  have d: "deref (mBuffer w j) (w\<lparr>mLocked := l\<rparr>) = cells w (mBuffer w j)" for l
    using null_cell [OF own] by (simp add: deref_def)
  show ?thesis
  proof (cases "cl_clone L (cells w) (cells w (mBuffer w j))")
    case None
    with assms v d maps_born [OF own assms(3), of ent] show ?thesis
      by (simp add: simulated_def construct_copy_def op_simps maps_of_def tidy_good)
  next
    case (Some pn)
    obtain p n where pn: "pn = (p, n)" by (cases pn)
    with Some have p: "p \<noteq> 0" "cells w p = None" using fresh_clone [OF law_parts(2) [OF assms(1)]] by auto
    from Some pn have c: "cl_clone L (cells w) (cells w (mBuffer w j)) = Some (p, n)" by simp
    obtain m where m: "cells w (mBuffer w j) = Some m" "ent n = ent m" "good m \<Longrightarrow> good n"
      by (rule law_clone [OF law_parts(5,7) [OF assms(1)] c]) blast
    have "a_obj (maps_of ent w) j = ent n" using m assms(4) by (simp add: contents_def)
    with Some pn assms v d maps_new_filled [OF own assms(3) p(2,1), of ent n] tidy_cell [OF assms(2) m(1)] m show ?thesis
      by (simp add: simulated_def construct_copy_def op_simps tidy_good contents_def maps_of_def)
  qed
qed

lemma new_raw_sim:
  assumes "tidy good w" "i \<notin> live w" "b = 0 \<or> b \<in> held w"
  shows "simulated L ent good (NewRaw i b) w"
proof -
  note own = tidy_own [OF assms(1)]
  have v: "valid b (w\<lparr>mLocked := l, mBuffer := B\<rparr>)" for B l
    using held_valid [OF own] assms(3) by (auto simp: valid_def)
  have e: "exec (construct_raw i b) w = w\<lparr>mBuffer := (mBuffer w)(i := b), mLocked := (mLocked w)(i := False)\<rparr>"
    using v by (simp add: construct_raw_def op_simps acquire_def clear_def)
  have "raw b (born i m (maps_of ent w)) = raw b (maps_of ent w)" for m by (simp add: raw_def born_def)
  with maps_take [OF new_object_own [OF own assms(2)], of i b ent] maps_born [OF own assms(2), of ent] assms(3) show ?thesis
    by (simp add: simulated_def e maps_of_def tidy_good [OF assms(1)])
qed

lemma destroy_sim:
  assumes "tidy good w" "i \<in> live w"
  shows "simulated L ent good (Destroy i) w"
proof -
  let ?v = "w\<lparr>mLocked := (mLocked w)(i := False)\<rparr>"
  have v: "own_inv False ?v" "i \<in> live ?v" using assms tidy_own [OF assms(1)] by simp_all
  have "maps_of ent ((exec (clear i) ?v)\<lparr>live := live w - {i}\<rparr>) =
      (put i Map.empty (maps_of ent w))\<lparr>a_lock := (a_lock (maps_of ent w))(i := False), a_live := live w - {i}\<rparr>"
    using maps_gone [of i "exec (clear i) ?v" ent] maps_free [OF v, of ent] maps_lock [OF assms(2), of ent False] assms(2)
    by (simp add: clear_own [OF v]) (simp add: put_def)
  then show ?thesis
    using tidy_good [OF assms(1)] by (simp add: simulated_def destruct_def op_simps) (simp add: clear_own [OF v])
qed

text \<open>Assignment, locks and transfers of ownership.\<close>

lemma assign_sim:
  assumes "map_laws L ent good" "tidy good w" "i \<in> live w" "valid b w"
  defines "m \<equiv> (case cells w b of None \<Rightarrow> Map.empty | Some m \<Rightarrow> ent m)"
  shows "(if mLocked w i then maps_of ent (exec (assign L i b) w) = maps_of ent w
      else maps_of ent (exec (assign L i b) w) = put i m (maps_of ent w) \<or>
        maps_of ent (exec (assign L i b) w) = put i Map.empty (maps_of ent w)) \<and> all_good good (cells (exec (assign L i b) w))"
proof -
  note own = tidy_own [OF assms(2)] and i = assms(3)
  have same: "put i m (maps_of ent w) = maps_of ent w" if "b = mBuffer w i"
    using that put_contents [OF i, of ent] by (simp add: m_def contents_def)
  show ?thesis
  proof (cases "cl_clone L (cells w) (cells w b)")
    case None
    have "exec (assign L i b) w = (if mLocked w i \<or> b = mBuffer w i then w else exec (clear i) w)"
      using None assms(4) own by (simp add: assign_def op_simps own_deref clear_own [OF own i])
    then show ?thesis
      using same tidy_good [OF assms(2)] maps_free [OF own i, of ent] by (auto simp: clear_own [OF own i])
  next
    case (Some pn)
    obtain p n where pn: "pn = (p, n)" by (cases pn)
    with Some have p: "p \<noteq> 0" "cells w p = None" using fresh_clone [OF law_parts(2) [OF assms(1)]] by auto
    from Some pn have c: "cl_clone L (cells w) (cells w b) = Some (p, n)" by simp
    obtain m' where m': "cells w b = Some m'" "ent n = ent m'" "good m' \<Longrightarrow> good n"
      by (rule law_clone [OF law_parts(5,7) [OF assms(1)] c]) blast
    let ?c = "(cells w)(p \<mapsto> n, mBuffer w i := None)"
    have "valid (mBuffer w i) (w\<lparr>cells := (cells w)(p \<mapsto> n)\<rparr>)"
      using own_valid [OF own i] by (simp add: valid_def)
    moreover have "mBuffer w i = 0 \<Longrightarrow> ?c = (cells w)(p \<mapsto> n)"
      using p own_zero [OF own] by (auto simp: fun_eq_iff)
    ultimately have e: "exec (assign L i b) w = (if mLocked w i \<or> b = mBuffer w i then w
        else w\<lparr>cells := ?c, mBuffer := (mBuffer w)(i := p)\<rparr>)"
      using assms(4) own Some pn by (simp add: assign_def op_simps own_deref clear_exec)
    have "ent n = m" using m' by (simp add: m_def)
    then show ?thesis
      using same tidy_good [OF assms(2)] m'(3) [OF tidy_cell [OF assms(2) m'(1)]] maps_fill [OF own i p(2,1), of ent n]
      by (auto simp: e)
  qed
qed

lemma transfer_sim:
  assumes "map_laws L ent good" "tidy good w"
  shows "i \<in> live w \<Longrightarrow> b = 0 \<or> b \<in> held w \<Longrightarrow> simulated L ent good (Assign i b) w"
    "i \<in> live w \<Longrightarrow> j \<in> live w \<Longrightarrow> simulated L ent good (AssignObject i j) w"
    "i \<in> live w \<Longrightarrow> simulated L ent good (Clear i) w"
    "i \<in> live w \<Longrightarrow> simulated L ent good (Lock i) w"
    "i \<in> live w \<Longrightarrow> simulated L ent good (Unlock i b) w"
    "i \<in> live w \<Longrightarrow> simulated L ent good (Release i) w"
    "i \<in> live w \<Longrightarrow> b = 0 \<or> b \<in> held w \<Longrightarrow> simulated L ent good (Acquire i b) w"
    "i \<in> live w \<Longrightarrow> j \<in> live w \<Longrightarrow> simulated L ent good (Swap i j) w"
proof -
  note own = tidy_own [OF assms(2)] and good = tidy_good [OF assms(2)]
  have r0: "raw 0 (maps_of ent w) = Map.empty" by (rule raw_maps(2) [OF own])
  show "i \<in> live w \<Longrightarrow> b = 0 \<or> b \<in> held w \<Longrightarrow> simulated L ent good (Assign i b) w"
    using assign_sim [OF assms(1,2), of i b] held_valid [OF own, of b] raw_maps(1) [of b w ent] r0 null_cell [OF own]
    by (auto simp: simulated_def)
  show "i \<in> live w \<Longrightarrow> j \<in> live w \<Longrightarrow> simulated L ent good (AssignObject i j) w"
    using assign_sim [OF assms(1,2), of i "mBuffer w j"] own_valid [OF own]
    by (simp add: simulated_def assign_object_def op_simps contents_def)
  show "i \<in> live w \<Longrightarrow> simulated L ent good (Clear i) w"
    using maps_free [OF own, of i ent] good by (simp add: simulated_def clear_own [OF own])
  show "i \<in> live w \<Longrightarrow> simulated L ent good (Lock i) w"
    using good by (simp add: simulated_def getAndLock_def op_simps maps_lock)
  show "i \<in> live w \<Longrightarrow> simulated L ent good (Unlock i b) w"
    using good by (simp add: simulated_def unlock_def op_simps maps_lock)
  show "i \<in> live w \<Longrightarrow> simulated L ent good (Release i) w"
  proof -
    assume i: "i \<in> live w"
    have h: "insert (mBuffer w i) (held w) - {0} = (if mBuffer w i = 0 then held w else insert (mBuffer w i) (held w))"
      using own_held_self [OF own] by auto
    have "mBuffer w i \<noteq> 0 \<Longrightarrow> a_raw (maps_of ent w) (mBuffer w i) = None"
      using held_not_buffer [OF own _ i] by (auto simp: maps_of_def view_def)
    moreover have "mBuffer w i = 0 \<Longrightarrow> contents ent i w = Map.empty" using null_cell [OF own] by (simp add: contents_def)
    moreover have "mBuffer w i = 0 \<Longrightarrow> (mBuffer w)(i := 0) = mBuffer w" by auto
    ultimately show ?thesis
      using i good maps_drop [OF own i, of ent] own_held_self [OF own] h
      by (cases "mBuffer w i = 0") (auto simp: simulated_def release_exec)
  qed
  show "i \<in> live w \<Longrightarrow> b = 0 \<or> b \<in> held w \<Longrightarrow> simulated L ent good (Acquire i b) w"
  proof -
    assume i: "i \<in> live w" and b: "b = 0 \<or> b \<in> held w"
    let ?v = "w\<lparr>cells := (cells w)(mBuffer w i := None), mBuffer := (mBuffer w)(i := 0)\<rparr>"
    have "\<not> mLocked w i \<Longrightarrow> own_inv False ?v" using inv_clear [OF own i] by (simp add: clear_own [OF own i])
    moreover have "raw b (put i m (maps_of ent w)) = raw b (maps_of ent w)" for m by (simp add: raw_def put_def)
    ultimately show ?thesis
      using maps_take [of False ?v i b ent] maps_free [OF own i, of ent] i b good
      by (simp add: simulated_def acquire_own [OF own i b])
  qed
  show "i \<in> live w \<Longrightarrow> j \<in> live w \<Longrightarrow> simulated L ent good (Swap i j) w"
    using good maps_swap [of i w j ent] by (auto simp: simulated_def swap_def op_simps)
qed

lemma maps_move:
  assumes "own_inv ex w" "i \<in> live w" "j \<in> live w" "i \<noteq> j"
  shows "maps_of ent (w\<lparr>cells := (cells w)(mBuffer w i := None), mBuffer := (mBuffer w)(j := 0, i := mBuffer w j)\<rparr>) =
     put i (a_obj (maps_of ent w) j) (put j Map.empty (maps_of ent w))"
proof -
  let ?v = "w\<lparr>cells := (cells w)(mBuffer w i := None), mBuffer := (mBuffer w)(i := 0)\<rparr>"
  have "maps_of ent (?v\<lparr>mBuffer := (mBuffer ?v)(j := mBuffer ?v i, i := mBuffer ?v j)\<rparr>) =
      put i (a_obj (maps_of ent ?v) j) (put j (a_obj (maps_of ent ?v) i) (maps_of ent ?v))"
    by (rule maps_swap) (use assms in simp_all)
  with assms(4) show ?thesis
    unfolding maps_free [OF assms(1,2)] by (auto simp: put_def maps_of_def fun_upd_twist cong: if_cong)
qed

lemma acquire_object_sim:
  assumes "tidy good w" "i \<in> live w" "j \<in> live w"
  shows "simulated L ent good (AcquireObject i j) w"
proof -
  note own = tidy_own [OF assms(1)]
  have "put i (a_obj (maps_of ent w) i) (put i Map.empty (maps_of ent w)) = maps_of ent w" by simp
  then show ?thesis
    using maps_free [OF own assms(2), of ent] maps_move [OF own assms(2,3), of ent] tidy_good [OF assms(1)] assms(2,3)
    by (simp add: simulated_def acquire_object_exec [OF own assms(2,3)])
qed

lemma maps_overwrite:
  assumes "own_inv ex w" "i \<in> live w" "cells w (mBuffer w i) = Some m0"
  shows "maps_of ent (w\<lparr>cells := (cells w)(mBuffer w i \<mapsto> m)\<rparr>) = put i (ent m) (maps_of ent w)"
  using assms null_cell [OF assms(1)] by (intro maps_write) auto

lemma sort_sim:
  assumes "map_laws L ent good" "tidy good w" "i \<in> live w"
  shows "simulated L ent good (Sort i) w"
proof (cases "mLocked w i \<or> mBuffer w i = 0")
  case True
  with assms show ?thesis by (auto simp: simulated_def sort_metadata_def op_simps tidy_good tidy_own)
next
  case False
  note own = tidy_own [OF assms(2)]
  obtain m where m: "cells w (mBuffer w i) = Some m" using live_cell [OF own assms(3)] False by auto
  with False assms maps_overwrite [OF own assms(3) m, of ent] law_keeps(4,5) [OF law_parts(6) [OF assms(1)] tidy_cell [OF assms(2) m]]
    put_contents [OF assms(3), of ent] own_valid [OF own assms(3)]
  show ?thesis by (simp add: simulated_def sort_metadata_def op_simps tidy_good own contents_def)
qed

lemma erase_sim:
  assumes "map_laws L ent good" "tidy good w" "i \<in> live w"
  shows "simulated L ent good (Erase i tag) w"
proof (cases "mLocked w i")
  case True
  with assms show ?thesis by (simp add: simulated_def erase_def op_simps tidy_good)
next
  case lk: False
  note own = tidy_own [OF assms(2)]
  have v: "valid (mBuffer w i) w" using own assms(3) by (rule own_valid)
  have d: "deref (mBuffer w i) w = cells w (mBuffer w i)" by (rule own_deref [OF own])
  show ?thesis
  proof (cases "cells w (mBuffer w i)")
    case None
    have "contents ent i w = Map.empty" using None by (simp add: contents_def)
    with put_contents [OF assms(3), of ent] have p: "put i Map.empty (maps_of ent w) = maps_of ent w" by simp
    obtain r en where f: "cl_find L None tag = (r, en)" by (cases "cl_find L None tag")
    then have "r \<noteq> OK" using law_parts(7) [OF assms(1)] by (metis null_laws_def fst_conv)
    with lk None d f v p \<open>contents ent i w = Map.empty\<close> assms(3) tidy_good [OF assms(2)] show ?thesis
      by (simp add: simulated_def erase_def op_simps)
  next
    case (Some m)
    have c: "contents ent i w = ent m" using Some by (simp add: contents_def)
    obtain r en where f: "cl_find L (Some m) tag = (r, en)" by (cases "cl_find L (Some m) tag")
    note find = law_find [OF law_parts(1) [OF assms(1)], of m tag]
    show ?thesis
    proof (cases "ent m tag")
      case None
      then have "(ent m)(tag := None) = ent m" by auto
      with find(1) None lk Some d f v c put_contents [OF assms(3), of ent] assms(3) tidy_good [OF assms(2)] show ?thesis
        by (simp add: simulated_def erase_def op_simps)
    next
      case e: (Some x)
      then have "r = OK" using find(2) [of "fst x" "snd x"] f by simp
      moreover have "mBuffer w i \<noteq> 0" using Some null_cell [OF own] by auto
      moreover note law_delete [OF law_parts(4) [OF assms(1)] tidy_cell [OF assms(2) Some], of tag]
      ultimately show ?thesis
        using lk Some d f v c e assms(3) tidy_good [OF assms(2)] maps_overwrite [OF own assms(3) Some, of ent]
        by (simp add: simulated_def erase_def op_simps)
    qed
  qed
qed

lemma query_sim:
  assumes "tidy good w" "i \<in> live w"
  shows "simulated L ent good (EntryCount i) w" "simulated L ent good (Exists i tag) w" "simulated L ent good (Find i tag) w"
    "simulated L ent good (FindConst i tag) w" "simulated L ent good (Dump i) w"
  using tidy_good [OF assms(1)] by (simp_all add: simulated_def queries_pure [OF tidy_own [OF assms(1)] assms(2)])

lemma put_stored:
  "\<not> a_lock a i \<Longrightarrow> stored i m a OK (put i m a)" "\<not> a_lock a i \<Longrightarrow> stored i m a NO_MEMORY (put i Map.empty a)"
  "stored i m a INVALID_OPERATION a" "stored i m a BAD_VALUE a"
  by (simp_all add: stored_def)

lemma checkType_error: "checkType L tag ty \<noteq> OK \<Longrightarrow> checkType L tag ty = INVALID_OPERATION"
  by (simp add: checkType_def Let_def split: if_splits)

lemma update_sim:
  assumes "map_laws L ent good" "tidy good w" "i \<in> live w" "fits L i 1 (cl_data_size L (cl_tag_type L tag) n) w"
    and "mBuffer w i = 0 \<or> d \<noteq> mBuffer w i"
  shows "stored i ((contents ent i w)(tag \<mapsto> (n, bs))) (maps_of ent w) (result (updateImpl L i tag d bs n) w)
      (maps_of ent (exec (updateImpl L i tag d bs n) w)) \<and> all_good good (cells (exec (updateImpl L i tag d bs n) w))"
proof -
  note own = tidy_own [OF assms(2)]
  define e where "e = cl_data_size L (cl_tag_type L tag) n"
  define u where "u = exec (resizeIfNeeded L i 1 e) w"
  define r where "r = result (resizeIfNeeded L i 1 e) w"
  have u: "tidy good u" unfolding u_def by (rule resize_good [OF assms(1-3)])
  note keep = resize_keeps [OF law_parts(2) [OF assms(1)] own assms(3), where e = 1 and d = e, folded u_def]
  show ?thesis
  proof (cases "mLocked w i \<or> cl_tag_type L tag = - 1 \<or>
      mBuffer w i < d \<and> d < mBuffer w i + cl_size L (cells w (mBuffer w i)) \<or> r \<noteq> OK")
    case True
    with resize_maps [OF assms(1-4), folded e_def, folded u_def r_def] tidy_good [OF u] tidy_good [OF assms(2)] own assms(3)
    show ?thesis
      by (auto simp: updateImpl_def op_simps own_deref stored_def e_def [symmetric] u_def [symmetric] r_def [symmetric])
  next
    case False
    then have "r \<noteq> NO_MEMORY" by simp
    with resize_maps [OF assms(1-4), folded e_def, folded u_def r_def] obtain m where
      mu: "maps_of ent u = maps_of ent w" and m: "cells u (mBuffer u i) = Some m" "good m" "ent m = contents ent i w"
      and room: "uint (cl_entry_count L (Some m)) + uint (1 :: u32) \<le> uint (cl_entry_capacity L (Some m))"
        "uint (cl_data_count L (Some m)) + uint e \<le> uint (cl_data_capacity L (Some m))" by blast
    have i: "i \<in> live u" using keep(1) assms(3) by simp
    note ou = tidy_own [OF u]
    define q where "q = (if ent m tag = None then cl_add L (Some m) tag bs n
        else cl_update L (Some m) (e_index (snd (cl_find L (Some m) tag))) bs n)"
    have b: "mBuffer u i \<noteq> 0" and v: "valid (mBuffer u i) u" and du: "deref (mBuffer u i) u = Some m"
      using null_cell [OF ou] m own_valid [OF ou i] own_deref [OF ou] by auto
    have q: "fst q = OK" "ent (snd q) = (ent m)(tag \<mapsto> (n, bs))" "good (snd q)"
      using law_store [OF law_parts(1) [OF assms(1)] room(2) [unfolded e_def], of bs] room(1)
        law_keeps(2,3) [OF law_parts(6) [OF assms(1)] m(2), of tag bs n]
      by (simp_all add: q_def)
    have run: "exec (updateImpl L i tag d bs n) w = u\<lparr>cells := (cells u)(mBuffer u i \<mapsto> snd q)\<rparr>"
      "result (updateImpl L i tag d bs n) w = fst q"
    proof -
      obtain fd en where f: "cl_find L (Some m) tag = (fd, en)" by (cases "cl_find L (Some m) tag")
      have fd: "fd = (if ent m tag = None then NAME_NOT_FOUND else OK)"
        using law_find [OF law_parts(1) [OF assms(1)], of m tag] f by auto
      have nd: "(mBuffer w i < d \<and> d < mBuffer w i + cl_size L (cells w (mBuffer w i))) = False"
        "mLocked w i = False" "(cl_tag_type L tag = - 1) = False" using False by simp_all
      have home: "data_home d (mBuffer w i) (cl_size L (cells w (mBuffer w i))) = 0"
        using False by (intro data_apart [OF assms(5)]) simp
      have r0: "result (resizeIfNeeded L i 1 e) w = OK" using False by (simp add: r_def)
      show "exec (updateImpl L i tag d bs n) w = u\<lparr>cells := (cells u)(mBuffer u i \<mapsto> snd q)\<rparr>"
        "result (updateImpl L i tag d bs n) w = fst q"
        using b v m(1) du own assms(3)
        by (simp_all add: nd home updateImpl_def op_simps own_deref e_def [symmetric] u_def [symmetric] r0 f fd q_def)
    qed
    show ?thesis
      using q m(3) tidy_good [OF u] maps_overwrite [OF ou i m(1), of ent "snd q"] False assms(3)
      unfolding run mu by (auto intro: put_stored)
  qed
qed

lemma append_sim:
  assumes "map_laws L ent good" "tidy good w" "i \<in> live w" "cells w b = Some s" "b \<noteq> mBuffer w i"
    and "fits L i (cl_entry_count L (Some s)) (cl_data_count L (Some s)) w" "dom (contents ent i w) \<inter> dom (ent s) = {}"
  shows "joined i (contents ent i w ++ ent s) (maps_of ent w) (result (append L i b) w) (maps_of ent (exec (append L i b) w)) \<and>
    all_good good (cells (exec (append L i b) w))"
proof -
  note own = tidy_own [OF assms(2)]
  define u where "u = exec (resizeIfNeeded L i (cl_entry_count L (Some s)) (cl_data_count L (Some s))) w"
  define r where "r = result (resizeIfNeeded L i (cl_entry_count L (Some s)) (cl_data_count L (Some s))) w"
  have u: "tidy good u" unfolding u_def by (rule resize_good [OF assms(1-3)])
  note ou = tidy_own [OF u]
  note keep = resize_keeps [OF law_parts(2) [OF assms(1)] own assms(3), where e = "cl_entry_count L (Some s)" and d = "cl_data_count L (Some s)", folded u_def]
  have i: "i \<in> live u" using keep(1) assms(3) by simp
  have b: "b \<noteq> 0" using assms(4) null_cell [OF own] by auto
  have s: "cells u b = Some s" using keep(4) [of b] assms(4,5) by simp
  have v: "valid b w" "valid b u" "valid (mBuffer u i) u" using assms(4) s own_valid [OF ou i] by (simp_all add: valid_def)
  have run: "\<not> mLocked w i \<Longrightarrow> exec (append L i b) w = exec (lib_write (mBuffer u i) (\<lambda>m. cl_append L m (Some s))) u"
    "\<not> mLocked w i \<Longrightarrow> result (append L i b) w = result (lib_write (mBuffer u i) (\<lambda>m. cl_append L m (Some s))) u"
    using v assms(4) s own_deref [OF ou] own_deref [OF own]
    by (simp_all add: append_def op_simps u_def [symmetric] del: lib_write_valid)
  consider (lk) "mLocked w i" | (lost) "\<not> mLocked w i" "r = NO_MEMORY" | (ok) "\<not> mLocked w i" "r = OK"
    using resize_maps [OF assms(1-3,6), folded u_def r_def] by auto
  then show ?thesis
  proof cases
    case lk
    with tidy_good [OF assms(2)] assms(3) show ?thesis by (simp add: append_def op_simps joined_def)
  next
    case lost
    with resize_maps [OF assms(1-3,6), folded u_def r_def] have l: "maps_of ent u = put i Map.empty (maps_of ent w)" "mBuffer u i = 0"
      by auto
    have "fst (cl_append L None (Some s)) \<noteq> OK" using law_parts(7) [OF assms(1)] by (simp add: null_laws_def)
    with l lost tidy_good [OF u] assms(3) show ?thesis
      by (simp add: run deref_def) (simp add: joined_def)
  next
    case ok
    then have "r \<noteq> NO_MEMORY" by simp
    with resize_maps [OF assms(1-3,6), folded u_def r_def] obtain m where
      mu: "maps_of ent u = maps_of ent w" and m: "cells u (mBuffer u i) = Some m" "good m" "ent m = contents ent i w"
      and room: "uint (cl_entry_count L (Some m)) + uint (cl_entry_count L (Some s)) \<le> uint (cl_entry_capacity L (Some m))"
        "uint (cl_data_count L (Some m)) + uint (cl_data_count L (Some s)) \<le> uint (cl_data_capacity L (Some m))" by blast
    have "dom (ent m) \<inter> dom (ent s) = {}" using assms(7) m(3) by simp
    note app = law_append [OF law_parts(3) [OF assms(1)] m(2) tidy_cell [OF assms(2,4)] this]
    have "mBuffer u i \<noteq> 0" using null_cell [OF ou] m by auto
    with app(1) app(2) [OF room] m ok v maps_overwrite [OF ou i m(1), of ent] tidy_good [OF u] assms(3)
    show ?thesis
      by (simp add: run own_deref [OF ou] mu) (simp add: joined_def)
  qed
qed

section \<open>Every sequence of calls\<close>

text \<open>
  Calls within the specification: raw buffers passed by address are ones the client holds, sizes
  do not overflow, and what is appended comes from a buffer and has no tag that is there already.
\<close>

fun in_scope :: "'m camlib \<Rightarrow> ('m \<Rightarrow> entries) \<Rightarrow> cam_event \<Rightarrow> ('m, 'a) client_scheme \<Rightarrow> bool" where
  "in_scope L ent (Assign i b) w = (b = 0 \<or> b \<in> held w)"
| "in_scope L ent (Append i b) w = (b \<in> held w \<and> (case cells w b of None \<Rightarrow> False
     | Some s \<Rightarrow> fits L i (cl_entry_count L (Some s)) (cl_data_count L (Some s)) w \<and> dom (contents ent i w) \<inter> dom (ent s) = {}))"
| "in_scope L ent (AppendObject i j) w = (case cells w (mBuffer w j) of None \<Rightarrow> False
     | Some s \<Rightarrow> fits L i (cl_entry_count L (Some s)) (cl_data_count L (Some s)) w \<and> dom (contents ent i w) \<inter> dom (ent s) = {})"
| "in_scope L ent (Update ty i tag d bs n) w = fits L i 1 (cl_data_size L (cl_tag_type L tag) n) w"
| "in_scope L ent (UpdateString i tag d bs) w =
     fits L i 1 (cl_data_size L (cl_tag_type L tag) (word_of_nat (length bs) + 1)) w"
| "in_scope L ent e w = True"

definition map_guard :: "'m camlib \<Rightarrow> ('m \<Rightarrow> entries) \<Rightarrow> cam_event \<Rightarrow> ('m, 'a) client_scheme \<Rightarrow> bool" where
  "map_guard L ent e w \<longleftrightarrow> cam_guard e w \<and> in_scope L ent e w"

lemma step_simulated:
  assumes "map_laws L ent good" "tidy good w" "map_guard L ent e w"
  shows "simulated L ent good e w"
proof -
  note own = tidy_own [OF assms(2)]
  note g = assms(3) [unfolded map_guard_def]
  show ?thesis
  proof (cases e)
    case (Append i b)
    with g obtain s where s: "cells w b = Some s" "i \<in> live w" "b \<in> held w"
      "fits L i (cl_entry_count L (Some s)) (cl_data_count L (Some s)) w" "dom (contents ent i w) \<inter> dom (ent s) = {}"
      by (auto split: option.splits)
    have "b \<noteq> mBuffer w i" using held_not_buffer [OF own s(3,2)] by simp
    with append_sim [OF assms(1,2) s(2,1) _ s(4,5)] Append s raw_maps(1) [OF s(3), of ent] show ?thesis
      by (simp add: simulated_def)
  next
    case (AppendObject i j)
    with g obtain s where s: "cells w (mBuffer w j) = Some s" "i \<in> live w" "j \<in> live w" "i \<noteq> j"
      "fits L i (cl_entry_count L (Some s)) (cl_data_count L (Some s)) w" "dom (contents ent i w) \<inter> dom (ent s) = {}"
      by (auto split: option.splits)
    have "mBuffer w j \<noteq> mBuffer w i" using live_distinct [OF own s(2,3)] s(1,4) null_cell [OF own] by auto
    with append_sim [OF assms(1,2) s(2,1) _ s(5,6)] AppendObject s show ?thesis
      by (simp add: simulated_def append_object_def op_simps contents_def)
  next
    case (Update ty i tag d bs n)
    with g update_sim [OF assms(1,2), of i tag n d bs] tidy_good [OF assms(2)] show ?thesis
      by (auto simp: simulated_def update_def op_simps put_stored checkType_error)
  next
    case (UpdateString i tag d bs)
    with g update_sim [OF assms(1,2), of i tag "word_of_nat (length bs) + 1" d "bs @ [0]"] tidy_good [OF assms(2)] show ?thesis
      by (auto simp: simulated_def update_string_def op_simps put_stored checkType_error)
  qed (use g in \<open>simp_all add: new_empty_sim [OF assms(2)] new_capacity_sim [OF assms(1,2)] new_copy_sim [OF assms(1,2)]
      new_raw_sim [OF assms(2)] destroy_sim [OF assms(2)] transfer_sim [OF assms(1,2)] acquire_object_sim [OF assms(2)]
      sort_sim [OF assms(1,2)] erase_sim [OF assms(1,2)] query_sim [OF assms(2)]\<close>)
qed

lemma step_tidy:
  assumes "map_laws L ent good" "tidy good w" "map_guard L ent e w"
  shows "tidy good (cam_step L e w)"
  using step_simulated [OF assms] cam_step_inv [OF law_parts(2) [OF assms(1)] tidy_own [OF assms(2)], of e] assms(3)
  by (simp add: tidy_def simulated_def map_guard_def)

interpretation mm: simulation "map_guard L ent" "cam_step L" "\<lambda>w. map_laws L ent good \<and> cam_init w"
    "\<lambda>w. map_laws L ent good \<and> tidy good w" "cam_answer L" map_spec "maps_of ent"
proof (unfold_locales, goal_cases)
  case (1 w)
  then show ?case by (simp add: tidy_def own_init) (simp add: cam_init_def all_good_def)
next
  case (2 w e)
  then show ?case by (blast intro: step_tidy)
next
  case (3 w e)
  then show ?case using step_simulated [of L ent good w e] unfolding simulated_def by blast
qed

definition no_maps :: maps where
  "no_maps = \<lparr>a_obj = \<lambda>i. Map.empty, a_lock = \<lambda>i. False, a_live = {}, a_raw = Map.empty\<rparr>"

lemma maps_init: "cam_init w \<Longrightarrow> maps_of ent w = no_maps"
  by (auto simp: cam_init_def maps_of_def view_def no_maps_def)

text \<open>What the queries of an unlocked object answer is in the specification's state.\<close>

lemma queries_answer:
  assumes "map_laws L ent good" "tidy good w" "i \<in> live w" "\<not> mLocked w i"
  shows "result (metadata_exists L i tag) w = (contents ent i w tag \<noteq> None)"
    "contents ent i w tag = None \<Longrightarrow> e_count (result (find_entry L i tag) w) = 0 \<and> e_data (result (find_entry L i tag) w) = NullData"
    "contents ent i w tag = Some (n, bs) \<Longrightarrow>
       e_count (result (find_entry L i tag) w) = n \<and> e_data (result (find_entry L i tag) w) = DataAt bs"
proof -
  note own = tidy_own [OF assms(2)]
  obtain r en where f: "cl_find L (cells w (mBuffer w i)) tag = (r, en)" by (cases "cl_find L (cells w (mBuffer w i)) tag")
  have r: "(r = OK) = (contents ent i w tag \<noteq> None)"
  proof (cases "cells w (mBuffer w i)")
    case None
    then have "r \<noteq> OK" using f law_parts(7) [OF assms(1)] by (metis null_laws_def fst_conv)
    with None show ?thesis by (simp add: contents_def)
  next
    case (Some m)
    with f law_find [OF law_parts(1) [OF assms(1)], of m tag] show ?thesis
      by (cases "ent m tag") (auto simp: contents_def)
  qed
  show "result (metadata_exists L i tag) w = (contents ent i w tag \<noteq> None)"
    using r f own assms(3) by (simp add: metadata_exists_def op_simps own_deref)
  show "contents ent i w tag = None \<Longrightarrow> e_count (result (find_entry L i tag) w) = 0 \<and> e_data (result (find_entry L i tag) w) = NullData"
    using r f own assms(3,4) by (simp add: find_entry_def find_const_def op_simps own_deref)
  show "contents ent i w tag = Some (n, bs) \<Longrightarrow>
       e_count (result (find_entry L i tag) w) = n \<and> e_data (result (find_entry L i tag) w) = DataAt bs"
  proof -
    assume c: "contents ent i w tag = Some (n, bs)"
    then obtain m where m: "cells w (mBuffer w i) = Some m" "ent m tag = Some (n, bs)"
      by (cases "cells w (mBuffer w i)") (simp_all add: contents_def)
    show ?thesis
      using law_find(2) [OF law_parts(1) [OF assms(1)] m(2)] m(1) r f c own assms(3,4)
      by (simp add: find_entry_def find_const_def op_simps own_deref)
  qed
qed

lemma demo_map_laws: "map_laws demo_camlib d_map (\<lambda>m. True)"
  unfolding map_laws_def append_law_def delete_law_def clone_law_def keeps_good_def null_laws_def
  by (intro conjI demo_laws demo_fresh; auto simp: demo_camlib_def demo_new_def demo_get_def demo_zero_def split: option.splits if_splits)

definition demo_calls :: "cam_event list" where
  "demo_calls = [NewCapacity 0 1 0, Update TYPE_BYTE 0 5 0 [7] 1, NewEmpty 1, Swap 0 1]"

section \<open>Property\<close>

text \<open>
  C2. The class implements a store of maps: for any library with the documented laws and any
  sequence of constructions, destructions, copies, transfers, locks, updates, appends, erasures
  and queries within the contract, what the calls answer and the entries, locks and raw buffers
  they leave are a run of the specification \<open>map_spec\<close>, in which no heap, pointer or capacity
  occurs; running out of memory is part of it. Afterwards \<^verbatim>\<open>find\<close> on any unlocked
  object gives the count and data the specification has for the tag, or null.
\<close>

theorem metadata_refines_maps:
  assumes "map_laws L ent good" "cam_init w" "allowed_run (map_guard L ent) (cam_step L) calls w"
    and "w' = fold (cam_step L) calls w"
  shows "spec_run map_spec (observed (cam_step L) (cam_answer L) calls w) no_maps (maps_of ent w') \<and>
    (\<forall>i tag. i \<in> live w' \<longrightarrow> \<not> mLocked w' i \<longrightarrow>
       (let found = result (find_entry L i tag) w' in
        case a_obj (maps_of ent w') i tag of
          None \<Rightarrow> e_count found = 0 \<and> e_data found = NullData
        | Some (n, bs) \<Rightarrow> e_count found = n \<and> e_data found = DataAt bs))"
proof -
  have "map_laws L ent good \<and> tidy good w" using mm.inv_init [of L ent good w] assms(1,2) by blast
  note run = mm.run_simulates [OF this assms(3), folded assms(4)]
  moreover have "case a_obj (maps_of ent w') i tag of
        None \<Rightarrow> e_count (result (find_entry L i tag) w') = 0 \<and> e_data (result (find_entry L i tag) w') = NullData
      | Some (n, bs) \<Rightarrow> e_count (result (find_entry L i tag) w') = n \<and> e_data (result (find_entry L i tag) w') = DataAt bs"
    if "i \<in> live w'" "\<not> mLocked w' i" for i tag
    using queries_answer(2,3) [of L ent good w' i tag] run that by (auto split: option.split)
  ultimately show ?thesis by (simp add: maps_init [OF assms(2)] Let_def)
qed

theorem metadata_refines_maps_witness:
  "spec_run map_spec (observed (cam_step demo_camlib) (cam_answer demo_camlib) demo_calls demo_world) no_maps
     (maps_of d_map (fold (cam_step demo_camlib) demo_calls demo_world))"
proof -
  have "allowed_run (map_guard demo_camlib d_map) (cam_step demo_camlib) demo_calls demo_world"
    unfolding demo_calls_def demo_world_def
    by (simp add: map_guard_def fits_def used_def construct_capacity_def update_def updateImpl_def construct_empty_def op_simps
       checkType_def demo_camlib_def demo_new_def demo_zero_def demo_get_def lib_read_def lib_write_def touch_def resizeIfNeeded_def deref_def)
  from metadata_refines_maps [OF demo_map_laws demo_world_init this refl] show ?thesis by blast
qed

end
