(* ===== verification/CameraParcel.thy ===== *)
theory CameraParcel
  imports CameraMetadata
begin

text \<open>
  Metadata in parcels: the two \<^verbatim>\<open>readFromParcel\<close> and the two \<^verbatim>\<open>writeToParcel\<close>
  of \<^verbatim>\<open>shim/camera/CameraMetadata.cpp\<close>. The class \<^verbatim>\<open>Parcel\<close> is not part of
  this repository: its operations are a parameter, functions on an abstract parcel. An access
  outside a blob sets the flag \<open>bad\<close> of the heap model.
\<close>

section \<open>Parcels, a parameter\<close>

text \<open>
  Reads and writes give a status. A read blob comes with its bytes, a written one with the
  address of its data; \<open>pa_fillBlob\<close> stores bytes at an offset in the blob written last.
\<close>

record 'p parcel_ops =
  pa_readInt32 :: "'p \<Rightarrow> int \<times> s32 \<times> 'p"
  pa_readBlob :: "'p \<Rightarrow> u32 \<Rightarrow> int \<times> bytes \<times> 'p"
  pa_writeInt32 :: "'p \<Rightarrow> s32 \<Rightarrow> int \<times> 'p"
  pa_writeBlob :: "'p \<Rightarrow> u32 \<Rightarrow> int \<times> addr \<times> 'p"
  pa_fillBlob :: "'p \<Rightarrow> u32 \<Rightarrow> bytes \<Rightarrow> 'p"

record ('m, 'p) parcel_world = "'m client" +
  parcel :: 'p

definition parcel_readInt32 :: "'p parcel_ops \<Rightarrow> (('m, 'p, 'a) parcel_world_scheme, int \<times> s32) state" where
  "parcel_readInt32 Q = do {
     r \<leftarrow> gets (\<lambda>w. pa_readInt32 Q (parcel w));
     modify (\<lambda>w. w\<lparr>parcel := snd (snd r)\<rparr>);
     State_Monad.return (fst r, fst (snd r))
   }"

definition parcel_readBlob :: "'p parcel_ops \<Rightarrow> u32 \<Rightarrow> (('m, 'p, 'a) parcel_world_scheme, int \<times> bytes) state" where
  "parcel_readBlob Q n = do {
     r \<leftarrow> gets (\<lambda>w. pa_readBlob Q (parcel w) n);
     modify (\<lambda>w. w\<lparr>parcel := snd (snd r)\<rparr>);
     State_Monad.return (fst r, fst (snd r))
   }"

definition parcel_writeInt32 :: "'p parcel_ops \<Rightarrow> s32 \<Rightarrow> (('m, 'p, 'a) parcel_world_scheme, int) state" where
  "parcel_writeInt32 Q v = do {
     r \<leftarrow> gets (\<lambda>w. pa_writeInt32 Q (parcel w) v);
     modify (\<lambda>w. w\<lparr>parcel := snd r\<rparr>);
     State_Monad.return (fst r)
   }"

definition parcel_writeBlob :: "'p parcel_ops \<Rightarrow> u32 \<Rightarrow> (('m, 'p, 'a) parcel_world_scheme, int \<times> addr) state" where
  "parcel_writeBlob Q n = do {
     r \<leftarrow> gets (\<lambda>w. pa_writeBlob Q (parcel w) n);
     modify (\<lambda>w. w\<lparr>parcel := snd (snd r)\<rparr>);
     State_Monad.return (fst r, fst (snd r))
   }"

text \<open>An access to \<open>n\<close> bytes at an offset of a block of \<open>size\<close> bytes.\<close>

definition in_block :: "u32 \<Rightarrow> u32 \<Rightarrow> nat \<Rightarrow> (('m, 'a) cam_scheme, unit) state" where
  "in_block off n sz = modify (\<lambda>w. if unat off + unat n \<le> sz then w else w\<lparr>bad := True\<rparr>)"

section \<open>Reading and writing\<close>

definition ALIGN_TO :: "u32 \<Rightarrow> u32 \<Rightarrow> u32" where
  "ALIGN_TO val alignment = (val + (alignment - 1)) AND NOT (alignment - 1)"

text \<open>
  The static \<^verbatim>\<open>readFromParcel\<close>: the status and the buffer stored through \<^verbatim>\<open>out\<close>;
  without an \<^verbatim>\<open>out\<close> the buffer read is freed again.
\<close>

definition readFromParcel :: "'m camlib \<Rightarrow> 'p parcel_ops \<Rightarrow> bool \<Rightarrow> (('m, 'p, 'a) parcel_world_scheme, int \<times> addr) state" where
  "readFromParcel L Q out = do {
     (err, blobSize) \<leftarrow> parcel_readInt32 Q;
     if err \<noteq> OK then State_Monad.return (err, 0)
     else if blobSize = 0 then State_Monad.return (OK, 0)
     else if blobSize \<le> cl_alignment L then State_Monad.return (BAD_VALUE, 0)
     else do {
       (err, metadata) \<leftarrow> (do {
         (err, blob) \<leftarrow> parcel_readBlob Q blobSize;
         if err \<noteq> OK then State_Monad.return (err, 0)
         else do {
           (err, offset) \<leftarrow> parcel_readInt32 Q;
           if err \<noteq> OK then State_Monad.return (err, 0)
           else if cl_alignment L \<le> offset then State_Monad.return (BAD_VALUE, 0)
           else (let metadataSize = blobSize - cl_alignment L in do {
             in_block offset metadataSize (length blob);
             m \<leftarrow> lib_new (\<lambda>h. cl_checked_copy L h (take (unat metadataSize) (drop (unat offset) blob)));
             State_Monad.return (if m = 0 then BAD_VALUE else OK, m)
           })
         }
       });
       whenM (\<not> out \<and> metadata \<noteq> 0) (lib_free metadata);
       State_Monad.return (err, if out then metadata else 0)
     }
   }"

text \<open>The static \<^verbatim>\<open>writeToParcel\<close> of a raw buffer.\<close>

definition writeToParcel :: "'m camlib \<Rightarrow> 'p parcel_ops \<Rightarrow> addr \<Rightarrow> (('m, 'p, 'a) parcel_world_scheme, int) state" where
  "writeToParcel L Q metadata =
     (if metadata = 0 then parcel_writeInt32 Q 0
      else do {
        metadataSize \<leftarrow> lib_read metadata (cl_compact_size L);
        (let alignment = cl_alignment L; blobSize = metadataSize + alignment in do {
          res \<leftarrow> parcel_writeInt32 Q blobSize;
          if res \<noteq> OK then State_Monad.return res
          else do {
            offset \<leftarrow> (do {
              (res, blobData) \<leftarrow> parcel_writeBlob Q blobSize;
              if res \<noteq> OK then State_Monad.return 0
              else (let offset = ALIGN_TO blobData alignment - blobData in do {
                in_block offset metadataSize (unat blobSize);
                bs \<leftarrow> lib_read metadata (cl_copy L);
                modify (\<lambda>w. w\<lparr>parcel := pa_fillBlob Q (parcel w) offset bs\<rparr>);
                State_Monad.return offset
              })
            });
            parcel_writeInt32 Q offset
          }
        })
      })"

text \<open>The two members; \<open>has_parcel\<close> is false for a null parcel pointer.\<close>

definition readFromParcel_object ::
    "'m camlib \<Rightarrow> 'p parcel_ops \<Rightarrow> nat \<Rightarrow> bool \<Rightarrow> (('m, 'p, 'a) parcel_world_scheme, int) state" where
  "readFromParcel_object L Q i has_parcel =
     (if \<not> has_parcel then State_Monad.return BAD_VALUE
      else do {
        locked \<leftarrow> gets (\<lambda>w. mLocked w i);
        if locked then State_Monad.return INVALID_OPERATION
        else do {
          (res, buffer) \<leftarrow> readFromParcel L Q True;
          if res \<noteq> NO_ERROR then State_Monad.return res
          else do {
            clear i;
            setBuffer i buffer;
            State_Monad.return OK
          }
        }
      })"

definition writeToParcel_object ::
    "'m camlib \<Rightarrow> 'p parcel_ops \<Rightarrow> nat \<Rightarrow> bool \<Rightarrow> (('m, 'p, 'a) parcel_world_scheme, int) state" where
  "writeToParcel_object L Q i has_parcel =
     (if \<not> has_parcel then State_Monad.return BAD_VALUE
      else do { b \<leftarrow> gets (\<lambda>w. mBuffer w i); writeToParcel L Q b })"

section \<open>Alignment\<close>

lemma align_offset:
  assumes "k < 32"
  shows "uint (ALIGN_TO a (2 ^ k) - a) < 2 ^ k" "2 ^ k dvd uint (ALIGN_TO a (2 ^ k))"
proof -
  let ?x = "a + (2 ^ k - 1)"
  have m: "(2 ^ k - 1 :: u32) = mask k" by (simp add: mask_eq_exp_minus_1)
  have "?x AND NOT (mask k) = ?x - take_bit k ?x"
    by (subst disjunctive_diff) (auto simp: bit_simps intro!: bit_eqI)
  then have al: "ALIGN_TO a (2 ^ k) = ?x - take_bit k ?x" by (simp add: ALIGN_TO_def m)
  have t: "uint (take_bit k ?x) < 2 ^ k" by (simp add: unsigned_take_bit_eq)
  have "uint (mask k :: u32) = mask k" using assms by (auto intro!: bit_eqI simp: bit_simps)
  then have one: "uint (2 ^ k - 1 :: u32) = 2 ^ k - 1" by (simp add: m mask_eq_exp_minus_1 [of k, where 'a = int])
  have "ALIGN_TO a (2 ^ k) - a = 2 ^ k - 1 - take_bit k ?x" by (simp add: al)
  moreover have "uint (2 ^ k - 1 - take_bit k ?x) = 2 ^ k - 1 - uint (take_bit k ?x)"
    using one t by (subst uint_sub_lem [THEN iffD1]) simp_all
  ultimately have "uint (ALIGN_TO a (2 ^ k) - a) = 2 ^ k - 1 - uint (take_bit k ?x)" by simp
  then show "uint (ALIGN_TO a (2 ^ k) - a) < 2 ^ k" using uint_ge_0 [of "take_bit k ?x"] by linarith
  have tb: "uint (take_bit k ?x) = uint ?x mod 2 ^ k"
    by (subst unsigned_take_bit_eq) (rule take_bit_eq_mod)
  have "uint ?x mod 2 ^ k \<le> uint ?x" by (intro zmod_le_nonneg_dividend) simp
  then have "uint (?x - take_bit k ?x) = uint ?x - uint (take_bit k ?x)"
    unfolding tb [symmetric] by (rule uint_sub_lem [THEN iffD1])
  also have "\<dots> = uint ?x - uint ?x mod 2 ^ k" by (simp only: tb)
  also have "2 ^ k dvd \<dots>" by simp
  finally show "2 ^ k dvd uint (ALIGN_TO a (2 ^ k))" by (simp add: al)
qed

lemma offset_fits:
  fixes sz a :: u32
  assumes "k < 32" and "uint sz + 2 ^ k < 2 ^ 32"
  shows "2 ^ k dvd uint (ALIGN_TO a (2 ^ k)) \<and> ALIGN_TO a (2 ^ k) - a < 2 ^ k \<and>
    unat (ALIGN_TO a (2 ^ k) - a) + unat sz \<le> unat (sz + 2 ^ k)"
proof -
  have u: "uint (2 ^ k :: u32) = 2 ^ k" using assms(1) by (auto intro!: bit_eqI simp: bit_simps)
  note o = align_offset [OF assms(1), of a]
  from o(1) have lt: "ALIGN_TO a (2 ^ k) - a < 2 ^ k" by (simp add: word_less_def u)
  have "uint (sz + 2 ^ k) = uint sz + 2 ^ k" using assms(2) u by (subst uint_add_lem [THEN iffD1]) simp_all
  with o(1) have "unat (ALIGN_TO a (2 ^ k) - a) + unat sz \<le> unat (sz + 2 ^ k)"
    by (simp add: unat_eq_nat_uint nat_add_distrib [symmetric] del: nat_uint_eq)
  with o lt show ?thesis by simp
qed

section \<open>The parcel calls as state updates\<close>

lemma parcel_calls [simp]:
  "run_state (parcel_readInt32 Q) w =
     ((fst (pa_readInt32 Q (parcel w)), fst (snd (pa_readInt32 Q (parcel w)))), w\<lparr>parcel := snd (snd (pa_readInt32 Q (parcel w)))\<rparr>)"
  "run_state (parcel_readBlob Q n) w =
     ((fst (pa_readBlob Q (parcel w) n), fst (snd (pa_readBlob Q (parcel w) n))), w\<lparr>parcel := snd (snd (pa_readBlob Q (parcel w) n))\<rparr>)"
  "run_state (parcel_writeInt32 Q v) w =
     (fst (pa_writeInt32 Q (parcel w) v), w\<lparr>parcel := snd (pa_writeInt32 Q (parcel w) v)\<rparr>)"
  "run_state (parcel_writeBlob Q n) w =
     ((fst (pa_writeBlob Q (parcel w) n), fst (snd (pa_writeBlob Q (parcel w) n))), w\<lparr>parcel := snd (snd (pa_writeBlob Q (parcel w) n))\<rparr>)"
  "run_state (in_block off n sz) w = ((), if unat off + unat n \<le> sz then w else w\<lparr>bad := True\<rparr>)"
  by (simp_all add: parcel_readInt32_def parcel_readBlob_def parcel_writeInt32_def parcel_writeBlob_def in_block_def)

lemma lib_calls [simp]:
  "run_state (lib_new f) u = (result (lib_new f) u, exec (lib_new f) u)"
  "run_state (lib_free p) u = ((), exec (lib_free p) u)"
  by (simp_all add: run_state_split)

lemma own_parcel [simp]: "own_inv ex (w\<lparr>parcel := p\<rparr>) = own_inv ex w"
  by (simp add: own_inv_def)

lemma fresh_copy: "camlib_fresh L \<Longrightarrow> cl_checked_copy L h bs = Some (p, m) \<Longrightarrow> p \<noteq> 0 \<and> h p = None"
  unfolding camlib_fresh_def by blast

text \<open>A blob read has the size asked for.\<close>

definition parcel_blob_sized :: "'p parcel_ops \<Rightarrow> bool" where
  "parcel_blob_sized Q \<longleftrightarrow>
     (\<forall>p n. fst (pa_readBlob Q p n) = OK \<longrightarrow> length (fst (snd (pa_readBlob Q p n))) = unat n)"

lemma offset_in_blob:
  fixes off sz al :: u32
  assumes "al < sz" "off < al"
  shows "unat off + unat (sz - al) \<le> unat sz"
proof -
  have "unat (sz - al) = unat sz - unat al" using assms(1) by (intro unat_sub) simp
  with assms show ?thesis by (simp add: word_less_nat_alt)
qed

text \<open>
  What a read does to the heap: nothing, unless it succeeds with a buffer, which is new.
\<close>

lemma read_result:
  fixes w :: "('m, 'p, 'a) parcel_world_scheme"
  assumes "camlib_fresh L" "parcel_blob_sized Q" "cells w 0 = None"
  obtains p where
    "fst (result (readFromParcel L Q out) w) \<noteq> OK \<or> snd (result (readFromParcel L Q out) w) = 0"
    "snd (result (readFromParcel L Q out) w) = 0"
    "exec (readFromParcel L Q out) w = w\<lparr>parcel := p\<rparr>"
  | q n p where "out" "result (readFromParcel L Q out) w = (OK, q)" "q \<noteq> 0" "cells w q = None"
    "exec (readFromParcel L Q out) w = w\<lparr>cells := (cells w)(q \<mapsto> n), parcel := p\<rparr>"
proof -
  obtain e1 sz p1 where r1: "pa_readInt32 Q (parcel w) = (e1, sz, p1)" by (metis surj_pair)
  obtain e2 blob p2 where r2: "pa_readBlob Q p1 sz = (e2, blob, p2)" by (metis surj_pair)
  obtain e3 off p3 where r3: "pa_readInt32 Q p2 = (e3, off, p3)" by (metis surj_pair)
  let ?n = "sz - cl_alignment L"
  let ?new = "cl_checked_copy L (cells w) (take (unat ?n) (drop (unat off) blob))"
  let ?run = "run_state (readFromParcel L Q out) w"
  have fits: "unat off + unat ?n \<le> length blob" if "cl_alignment L < sz" "off < cl_alignment L" "e2 = OK"
    using offset_in_blob [OF that(1,2)] assms(2) r2 that(3) unfolding parcel_blob_sized_def by (metis fst_conv snd_conv)
  note unchanged = that(1)
  have none: thesis if ex: "\<exists>p e. ?run = ((e, 0), w\<lparr>parcel := p\<rparr>)"
    using ex unchanged by (auto simp: result_def exec_def)
  note d = readFromParcel_def r1 r2 r3
  show thesis
  proof (cases "e1 = OK \<and> sz \<noteq> 0 \<and> cl_alignment L < sz")
    case False
    then have "\<exists>p e. ?run = ((e, 0), w\<lparr>parcel := p\<rparr>)" by (auto simp: d not_less)
    then show ?thesis by (rule none)
  next
    case head: True
    then have nle: "(sz \<le> cl_alignment L) = False" by (simp add: not_le)
    show ?thesis
    proof (cases "e2 = OK \<and> e3 = OK \<and> off < cl_alignment L \<and> ?new \<noteq> None")
      case False
      then consider "e2 \<noteq> OK" | "e2 = OK" "e3 \<noteq> OK" | "e2 = OK" "e3 = OK" "\<not> off < cl_alignment L"
        | "e2 = OK" "e3 = OK" "off < cl_alignment L" "?new = None" by blast
      then have "\<exists>p e. ?run = ((e, 0), w\<lparr>parcel := p\<rparr>)"
      proof cases
        case 1
        with head have "?run = ((e2, 0), w\<lparr>parcel := p2\<rparr>)" by (simp add: d nle)
        then show ?thesis by blast
      next
        case 2
        with head have "?run = ((e3, 0), w\<lparr>parcel := p3\<rparr>)" by (simp add: d nle)
        then show ?thesis by blast
      next
        case 3
        with head have "?run = ((BAD_VALUE, 0), w\<lparr>parcel := p3\<rparr>)" by (simp add: d nle not_less)
        then show ?thesis by blast
      next
        case 4
        with head fits have "?run = ((BAD_VALUE, 0), w\<lparr>parcel := p3\<rparr>)" by (simp add: d nle Let_def not_le [of "cl_alignment L"])
        then show ?thesis by blast
      qed
      then show ?thesis by (rule none)
    next
      case True
      then obtain q n where new: "?new = Some (q, n)" by auto
      with assms(1) have q: "q \<noteq> 0" "cells w q = None" by (auto dest: fresh_copy)
      have "?run = (if out then ((OK, q), w\<lparr>cells := (cells w)(q \<mapsto> n), parcel := p3\<rparr>) else ((OK, 0), w\<lparr>parcel := p3\<rparr>))"
        using head True new q fits by (simp add: d nle Let_def not_le [of "cl_alignment L"] valid_def fun_upd_idem)
      then show ?thesis using that q by (cases out) (auto simp: result_def exec_def)
    qed
  qed
qed

text \<open>The status of a write is that of its last \<^verbatim>\<open>writeInt32\<close>.\<close>

lemma write_reports_ok:
  fixes w :: "('m, 'p, 'a) parcel_world_scheme"
  assumes "\<And>p v. fst (pa_writeInt32 Q p v) = OK"
  shows "result (writeToParcel L Q b) w = OK"
proof -
  have "run_state (lib_read b f) u = (f (deref b u), exec (touch b) u)"
    for f :: "'m option \<Rightarrow> 'r" and u :: "('m, 'p, 'a) parcel_world_scheme"
    by (simp add: lib_read_def exec_def touch_def deref_def)
  then show ?thesis by (simp add: result_def writeToParcel_def Let_def assms split: prod.split)
qed

section \<open>Reading keeps the heap in order\<close>

lemma read_object_cases:
  fixes w :: "('m, 'p, 'a) parcel_world_scheme"
  assumes "camlib_fresh L" "parcel_blob_sized Q" "own_inv ex w" "i \<in> live w"
  shows "own_inv ex (exec (readFromParcel_object L Q i has_parcel) w) \<and>
    (result (readFromParcel_object L Q i has_parcel) w \<noteq> OK \<longrightarrow>
      (\<exists>p. exec (readFromParcel_object L Q i has_parcel) w = w\<lparr>parcel := p\<rparr>))"
proof (cases "has_parcel \<and> \<not> mLocked w i")
  case False
  then have "exec (readFromParcel_object L Q i has_parcel) w = w"
    by (auto simp: readFromParcel_object_def op_simps)
  moreover have "w = w\<lparr>parcel := parcel w\<rparr>" by simp
  ultimately show ?thesis using assms(3) by metis
next
  case True
  let ?r = "result (readFromParcel L Q True) w"
  from assms(1,2) own_zero [OF assms(3)] show ?thesis
  proof (cases rule: read_result [where out = True])
    case (1 p)
    have w: "own_inv ex (w\<lparr>parcel := p\<rparr>)" "i \<in> live (w\<lparr>parcel := p\<rparr>)" using assms(3,4) by simp_all
    have c: "exec (clear i) (w\<lparr>parcel := p\<rparr>) = w\<lparr>parcel := p, cells := (cells w)(mBuffer w i := None), mBuffer := (mBuffer w)(i := 0)\<rparr>"
      using True by (simp add: clear_own [OF w])
    have "own_inv ex (exec (clear i) (w\<lparr>parcel := p\<rparr>))" using w by (rule inv_clear)
    with 1 True assms(3) w show ?thesis
      by (cases ?r) (auto simp: readFromParcel_object_def op_simps c)
  next
    case (2 q n p)
    let ?w = "w\<lparr>cells := (cells w)(q \<mapsto> n), parcel := p\<rparr>"
    have q: "q \<noteq> mBuffer w i" using 2 own_valid [OF assms(3,4)] by (auto simp: valid_def)
    have v: "valid (mBuffer ?w i) ?w" using own_valid [OF assms(3,4)] by (simp add: valid_def)
    have o: "owned ex ((cells w)(q \<mapsto> n, mBuffer w i := None)) ((mBuffer w)(i := q)) (held w) (live w)"
      using assms(3,4) 2 by (intro owned_replace) (simp_all add: own_inv_def)
    have z: "mBuffer w i = 0 \<Longrightarrow> (cells w)(q \<mapsto> n, mBuffer w i := None) = (cells w)(q \<mapsto> n)"
      using 2(3) own_zero [OF assms(3)] by (auto simp: fun_eq_iff)
    have "exec (readFromParcel_object L Q i has_parcel) w =
        w\<lparr>cells := (cells w)(q \<mapsto> n, mBuffer w i := None), parcel := p, mBuffer := (mBuffer w)(i := q)\<rparr>"
      using 2 True v z by (simp add: readFromParcel_object_def op_simps clear_exec)
    with o 2 True assms(3) show ?thesis by (simp add: own_inv_def readFromParcel_object_def op_simps)
  qed
qed

section \<open>Properties\<close>

text \<open>
  C12. Reading is safe on any parcel, a forged one included: whatever sizes, offsets and bytes
  it holds, \<^verbatim>\<open>readFromParcel\<close> stays inside the blob, uses no freed memory, leaks
  nothing, and when it fails neither the heap nor any object has changed.
\<close>

theorem parcel_read_safe:
  fixes w :: "('m, 'p, 'a) parcel_world_scheme"
  assumes "camlib_fresh L" and "parcel_blob_sized Q" and "own_inv ex w" and "i \<in> live w"
  shows "own_inv ex (exec (readFromParcel_object L Q i has_parcel) w) \<and>
    (result (readFromParcel_object L Q i has_parcel) w \<noteq> OK \<longrightarrow>
       cells (exec (readFromParcel_object L Q i has_parcel) w) = cells w \<and>
       mBuffer (exec (readFromParcel_object L Q i has_parcel) w) = mBuffer w \<and>
       mLocked (exec (readFromParcel_object L Q i has_parcel) w) = mLocked w)"
proof -
  from read_object_cases [OF assms, of has_parcel] show ?thesis by auto
qed

text \<open>
  The writer's offset is one the reader accepts: for an alignment that is a power of two
  the metadata starts at an aligned address, less than the alignment after the start of the
  blob, at every blob address, so that with the reserved size it ends inside the blob.
\<close>

theorem write_offset_fits:
  fixes sz a :: u32
  assumes "k < 32" and "uint sz + 2 ^ k < 2 ^ 32"
  shows "2 ^ k dvd uint (ALIGN_TO a (2 ^ k)) \<and> ALIGN_TO a (2 ^ k) - a < 2 ^ k \<and>
    unat (ALIGN_TO a (2 ^ k) - a) + unat sz \<le> unat (sz + 2 ^ k)"
  by (rule offset_fits [OF assms])

theorem write_offset_fits_witness:
  "ALIGN_TO 0x1003 8 - 0x1003 < 8 \<and> 8 dvd uint (ALIGN_TO 0x1003 8)"
  using write_offset_fits [where k = 3 and sz = 100 and a = "0x1003"] by simp

text \<open>
  What \<^verbatim>\<open>Parcel\<close> documents, over the items written and the items still to be read: a
  successful write adds its item, filling changes bytes of the last blob, and a read gives
  back the next item when it has the kind and the size asked for.
\<close>

datatype item = Int32 s32 | Blob bytes

definition patch :: "bytes \<Rightarrow> nat \<Rightarrow> bytes \<Rightarrow> bytes" where
  "patch old off new = take off old @ new @ drop (off + length new) old"

definition parcel_laws :: "'p parcel_ops \<Rightarrow> ('p \<Rightarrow> item list) \<Rightarrow> ('p \<Rightarrow> item list) \<Rightarrow> bool" where
  "parcel_laws Q written unread \<longleftrightarrow>
     (\<forall>p v. fst (pa_writeInt32 Q p v) = OK \<longrightarrow> written (snd (pa_writeInt32 Q p v)) = written p @ [Int32 v]) \<and>
     (\<forall>p n. fst (pa_writeBlob Q p n) = OK \<longrightarrow>
        (\<exists>old. length old = unat n \<and> written (snd (snd (pa_writeBlob Q p n))) = written p @ [Blob old])) \<and>
     (\<forall>p off bs is old. written p = is @ [Blob old] \<longrightarrow> unat off + length bs \<le> length old \<longrightarrow>
        written (pa_fillBlob Q p off bs) = is @ [Blob (patch old (unat off) bs)]) \<and>
     (\<forall>p v is. unread p = Int32 v # is \<longrightarrow>
        (\<exists>p'. pa_readInt32 Q p = (OK, v, p') \<and> unread p' = is)) \<and>
     (\<forall>p bs is n. unread p = Blob bs # is \<longrightarrow> length bs = unat n \<longrightarrow>
        (\<exists>p'. pa_readBlob Q p n = (OK, bs, p') \<and> unread p' = is))"

text \<open>What a successful write leaves in the parcel.\<close>

definition written_form :: "'m camlib \<Rightarrow> 'm option \<Rightarrow> item list \<Rightarrow> bool" where
  "written_form L m is \<longleftrightarrow>
     (case m of None \<Rightarrow> is = [Int32 0]
      | Some c \<Rightarrow> (\<exists>blob off. is = [Int32 (cl_compact_size L m + cl_alignment L), Blob blob, Int32 off] \<and>
          off < cl_alignment L \<and> length blob = unat (cl_compact_size L m + cl_alignment L) \<and>
          take (length (cl_copy L m)) (drop (unat off) blob) = cl_copy L m))"

lemma patch_read:
  "off + length new \<le> length old \<Longrightarrow>
     length (patch old off new) = length old \<and> take (length new) (drop off (patch old off new)) = new"
  by (auto simp: patch_def)

lemma write_form:
  fixes w :: "('m, 'p, 'a) parcel_world_scheme"
  assumes laws: "parcel_laws Q written unread" and empty: "written (parcel w) = []"
    and al: "cl_alignment L = 2 ^ k" "k < 32" and own: "own_inv ex w" and b: "valid b w"
    and copy: "length (cl_copy L (cells w b)) = unat (cl_compact_size L (cells w b))"
    and sz: "uint (cl_compact_size L (cells w b)) + 2 ^ k < 2 ^ 32"
    and blob: "\<And>p. fst (pa_writeBlob Q p (cl_compact_size L (cells w b) + cl_alignment L)) = OK"
    and ok: "result (writeToParcel L Q b) w = OK"
  shows "written_form L (cells w b) (written (parcel (exec (writeToParcel L Q b) w))) \<and>
    (\<exists>p. exec (writeToParcel L Q b) w = w\<lparr>parcel := p\<rparr>)"
proof (cases "b = 0")
  case True
  have "cells w 0 = None" by (rule own_zero [OF own])
  moreover have "run_state (writeToParcel L Q b) w =
      (fst (pa_writeInt32 Q (parcel w) 0), w\<lparr>parcel := snd (pa_writeInt32 Q (parcel w) 0)\<rparr>)"
    using True by (simp add: writeToParcel_def)
  ultimately show ?thesis
    using laws ok empty True unfolding parcel_laws_def by (auto simp: exec_def result_def written_form_def)
next
  case False
  with b obtain c where c: "cells w b = Some c" by (auto simp: valid_def)
  let ?n = "cl_compact_size L (cells w b)"
  let ?sz = "?n + cl_alignment L"
  obtain e1 p1 where r1: "pa_writeInt32 Q (parcel w) ?sz = (e1, p1)" by (metis surj_pair)
  obtain e2 a p2 where r2: "pa_writeBlob Q p1 ?sz = (e2, a, p2)" by (metis surj_pair)
  have e2: "e2 = OK" using blob [of p1] r2 by simp
  let ?off = "ALIGN_TO a (cl_alignment L) - a"
  let ?p3 = "pa_fillBlob Q p2 ?off (cl_copy L (cells w b))"
  obtain e4 p4 where r4: "pa_writeInt32 Q ?p3 ?off = (e4, p4)" by (metis surj_pair)
  have fit: "unat ?off + unat ?n \<le> unat ?sz" "?off < cl_alignment L"
    using offset_fits [OF al(2) sz, of a] al(1) by simp_all
  have rd: "run_state (lib_read b f) (w\<lparr>parcel := p\<rparr>) = (f (cells w b), w\<lparr>parcel := p\<rparr>)" for p and f :: "'m option \<Rightarrow> 'r"
    using b False by (subst lib_read_run) (simp_all add: valid_def deref_def)
  have rd0: "run_state (lib_read b f) w = (f (cells w b), w)" for f :: "'m option \<Rightarrow> 'r"
    using b False by (subst lib_read_run) (simp_all add: valid_def deref_def)
  have run: "run_state (writeToParcel L Q b) w =
      (if e1 \<noteq> OK then (e1, w\<lparr>parcel := p1\<rparr>) else (e4, w\<lparr>parcel := p4\<rparr>))"
    using False fit e2 by (simp add: writeToParcel_def rd rd0 r1 r2 r4 Let_def)
  with ok have e: "e1 = OK" "e4 = OK" by (auto simp: result_def split: if_splits)
  have wi: "written (snd (pa_writeInt32 Q p v)) = written p @ [Int32 v]" if "fst (pa_writeInt32 Q p v) = OK" for p v
    using laws that unfolding parcel_laws_def by blast
  have wb: "\<exists>old. length old = unat n \<and> written (snd (snd (pa_writeBlob Q p n))) = written p @ [Blob old]"
    if "fst (pa_writeBlob Q p n) = OK" for p n
    using laws that unfolding parcel_laws_def by blast
  have w1: "written p1 = [Int32 ?sz]" using wi [of "parcel w" ?sz] r1 e(1) empty by simp
  obtain old where old: "length old = unat ?sz" "written p2 = [Int32 ?sz] @ [Blob old]"
    using wb [of p1 ?sz] r2 e2 w1 by auto
  have room: "unat ?off + length (cl_copy L (cells w b)) \<le> length old" using fit(1) old(1) copy by simp
  have w3: "written ?p3 = [Int32 ?sz] @ [Blob (patch old (unat ?off) (cl_copy L (cells w b)))]"
    using laws old(2) room unfolding parcel_laws_def by blast
  have "written p4 = written ?p3 @ [Int32 ?off]"
    using wi [of ?p3 ?off] r4 e(2) by simp
  with run e w3 patch_read [OF room] fit(2) old(1) c show ?thesis by (auto simp: exec_def written_form_def)
qed

lemma read_form:
  fixes v :: "('m, 'p, 'a) parcel_world_scheme"
  assumes laws: "parcel_laws Q written unread" and form: "written_form L m (unread (parcel v))"
    and al: "uint (cl_alignment L) = 2 ^ k" and copy: "length (cl_copy L m) = unat (cl_compact_size L m)"
    and sz: "uint (cl_compact_size L m) + 2 ^ k < 2 ^ 32" and nz: "cl_compact_size L m \<noteq> 0"
  obtains p where "m = None" "run_state (readFromParcel L Q True) v = ((OK, 0), v\<lparr>parcel := p\<rparr>)"
  | p where "m \<noteq> None" "run_state (readFromParcel L Q True) v =
      run_state (do { x \<leftarrow> lib_new (\<lambda>h. cl_checked_copy L h (cl_copy L m));
        State_Monad.return (if x = 0 then BAD_VALUE else OK, x) }) (v\<lparr>parcel := p\<rparr>)"
proof -
  have ri: "\<exists>p'. pa_readInt32 Q p = (OK, x, p') \<and> unread p' = is" if "unread p = Int32 x # is" for p x "is"
    using laws that unfolding parcel_laws_def by blast
  have rb: "\<exists>p'. pa_readBlob Q p n = (OK, bs, p') \<and> unread p' = is"
    if "unread p = Blob bs # is" "length bs = unat n" for p bs "is" n
    using laws that unfolding parcel_laws_def by blast
  show thesis
  proof (cases m)
    case None
    with form have "unread (parcel v) = [Int32 0]" by (simp add: written_form_def)
    then obtain p where "pa_readInt32 Q (parcel v) = (OK, 0, p)" using ri by blast
    with None that(1) [of p] show ?thesis by (simp add: readFromParcel_def)
  next
    case (Some c)
    let ?sz = "cl_compact_size L m + cl_alignment L"
    from form Some obtain blob off where items: "unread (parcel v) = [Int32 ?sz, Blob blob, Int32 off]"
      and off: "off < cl_alignment L" "length blob = unat ?sz"
        "take (length (cl_copy L m)) (drop (unat off) blob) = cl_copy L m"
      by (auto simp: written_form_def)
    from items obtain p1 where p1: "pa_readInt32 Q (parcel v) = (OK, ?sz, p1)" "unread p1 = [Blob blob, Int32 off]"
      using ri by blast
    from p1(2) off(2) obtain p2 where p2: "pa_readBlob Q p1 ?sz = (OK, blob, p2)" "unread p2 = [Int32 off]"
      using rb by blast
    from p2(2) obtain p3 where p3: "pa_readInt32 Q p2 = (OK, off, p3)" using ri by blast
    have u: "uint ?sz = uint (cl_compact_size L m) + 2 ^ k" using sz al by (subst uint_add_lem [THEN iffD1]) simp_all
    have "0 < uint (cl_compact_size L m)" using nz uint_ge_0 [of "cl_compact_size L m"] by (simp add: less_le uint_0_iff)
    with u al have lt: "cl_alignment L < ?sz" by (simp add: word_less_def)
    then have nz: "?sz \<noteq> 0" by auto
    have n: "?sz - cl_alignment L = cl_compact_size L m" by simp
    have fit: "unat off + unat (cl_compact_size L m) \<le> length blob"
      using offset_in_blob [OF lt off(1)] off(2) n by simp
    show ?thesis
      by (rule that(2) [of p3])
        (use Some p1(1) p2(1) p3 lt nz off fit copy in \<open>simp_all add: readFromParcel_def not_le Let_def\<close>)
  qed
qed

text \<open>
  C11. What was written is read back: the receiver of a parcel that \<^verbatim>\<open>writeToParcel\<close>
  filled gets, in any unlocked object, the contents of the buffer written, empty for a null
  buffer, wherever the sender's blob was placed in memory.
\<close>

theorem parcel_roundtrip:
  fixes w :: "('m, 'p, 'a) parcel_world_scheme" and v :: "('m, 'p, 'b) parcel_world_scheme"
  assumes "parcel_laws Q written unread" and "camlib_fresh L"
    and "cl_alignment L = 2 ^ k" and "k < 32"
    and "own_inv ex w" and "valid b w" and "written (parcel w) = []"
    and "length (cl_copy L (cells w b)) = unat (cl_compact_size L (cells w b))"
    and "cl_compact_size L (cells w b) \<noteq> 0" and "uint (cl_compact_size L (cells w b)) + 2 ^ k < 2 ^ 32"
    and "\<And>p. fst (pa_writeBlob Q p (cl_compact_size L (cells w b) + cl_alignment L)) = OK"
    and "result (writeToParcel L Q b) w = OK"
    and "own_inv ex v" and "j \<in> live v" and "\<not> mLocked v j"
    and "unread (parcel v) = written (parcel (exec (writeToParcel L Q b) w))"
    and "\<And>m. cells w b = Some m \<Longrightarrow> \<exists>q m'. cl_checked_copy L (cells v) (cl_copy L (Some m)) = Some (q, m') \<and> ent m' = ent m"
  shows "result (readFromParcel_object L Q j True) v = OK \<and>
    contents ent j (exec (readFromParcel_object L Q j True) v) =
      (case cells w b of None \<Rightarrow> Map.empty | Some m \<Rightarrow> ent m)"
proof -
  have u: "uint (2 ^ k :: u32) = 2 ^ k" using assms(4) by (auto intro!: bit_eqI simp: bit_simps)
  have form: "written_form L (cells w b) (unread (parcel v))"
    unfolding assms(16) using write_form [OF assms(1,7,3,4,5,6,8,10-12)] by blast
  have al: "uint (cl_alignment L) = 2 ^ k" using assms(3) u by simp
  have own: "valid (mBuffer v j) (v\<lparr>parcel := p, cells := (cells v)(q \<mapsto> m)\<rparr>)"
    "valid (mBuffer v j) (v\<lparr>parcel := p\<rparr>)" for q m p
    using own_valid [OF assms(13,14)] by (simp_all add: valid_def)
  from assms(1) form al assms(8,10,9) show ?thesis
  proof (cases rule: read_form)
    case (1 p)
    have z: "cells v 0 = None" by (rule own_zero [OF assms(13)])
    from 1 assms(14,15) own show ?thesis
      by (auto simp: readFromParcel_object_def run_state_split op_simps clear_exec contents_def z)
  next
    case (2 p)
    then obtain m where m: "cells w b = Some m" by auto
    then obtain q m' where q: "cl_checked_copy L (cells v) (cl_copy L (Some m)) = Some (q, m')" "ent m' = ent m"
      using assms(17) by blast
    have f: "q \<noteq> 0" "cells v q = None" using fresh_copy [OF assms(2) q(1)] by auto
    then have "q \<noteq> mBuffer v j" using own_valid [OF assms(13,14)] by (auto simp: valid_def)
    with 2 m q f assms(14,15) own show ?thesis
      by (auto simp: readFromParcel_object_def run_state_split op_simps clear_exec contents_def)
  qed
qed

definition demo_parcel :: "addr \<Rightarrow> int \<Rightarrow> item list parcel_ops" where
  "demo_parcel a e = \<lparr>
     pa_readInt32 = \<lambda>p. (case p of Int32 v # xs \<Rightarrow> (OK, v, xs) | _ \<Rightarrow> (- 61, - 1, p)),
     pa_readBlob = \<lambda>p n. (case p of Blob bs # xs \<Rightarrow> if length bs = unat n then (OK, bs, xs) else (- 22, [], p) | _ \<Rightarrow> (- 22, [], p)),
     pa_writeInt32 = \<lambda>p v. (OK, p @ [Int32 v]),
     pa_writeBlob = \<lambda>p n. if e = OK then (OK, a, p @ [Blob (replicate (unat n) 0)]) else (e, 0, p),
     pa_fillBlob = \<lambda>p off bs. (case last p of
         Blob old \<Rightarrow> butlast p @ [Blob (patch old (unat off) bs)] | Int32 v \<Rightarrow> p)\<rparr>"

lemma demo_parcel_laws: "parcel_laws (demo_parcel a e) id id"
  unfolding parcel_laws_def by (auto simp: demo_parcel_def)

lemma demo_parcel_sized: "parcel_blob_sized (demo_parcel a e)"
  by (auto simp: parcel_blob_sized_def demo_parcel_def split: list.split item.split)

definition with_parcel :: "'m client \<Rightarrow> 'p \<Rightarrow> ('m, 'p) parcel_world" where
  "with_parcel w p = \<lparr>cells = cells w, bad = bad w, mBuffer = mBuffer w, mLocked = mLocked w, held = held w, live = live w, parcel = p\<rparr>"

lemma with_parcel_inv [simp]: "own_inv ex (with_parcel w p) = own_inv ex w"
  by (simp add: own_inv_def with_parcel_def)

theorem parcel_read_safe_witness:
  "own_inv True (exec (readFromParcel_object demo_camlib (demo_parcel 0x2003 OK) 0 True)
     (with_parcel demo_one [Int32 24, Blob (replicate 24 0), Int32 (- 1)]))"
  using parcel_read_safe [OF demo_fresh demo_parcel_sized, where ex = True
      and w = "with_parcel demo_one [Int32 24, Blob (replicate 24 0), Int32 (- 1)]" and i = 0]
  by (simp add: demo_one_inv) (simp add: with_parcel_def demo_one_eq)

text \<open>The example library, with a copy that restores the example's one entry.\<close>

definition copy_camlib :: "demo_meta camlib" where
  "copy_camlib = demo_camlib\<lparr>cl_checked_copy := \<lambda>h bs. demo_new h ((demo_zero 1 0)\<lparr>d_count := 1, d_map := [5 \<mapsto> (1, [7])]\<rparr>)\<rparr>"

lemma copy_fresh: "camlib_fresh copy_camlib"
  by (auto simp: camlib_fresh_def copy_camlib_def demo_camlib_def demo_new_def split: option.splits if_splits)

theorem parcel_roundtrip_witness:
  "contents d_map 0 (exec (readFromParcel_object copy_camlib (demo_parcel 0x2003 OK) 0 True)
     (with_parcel demo_one (parcel (exec (writeToParcel copy_camlib (demo_parcel 0x2003 OK) 0x1000) (with_parcel demo_used [])))))
   = [5 \<mapsto> (1, [7])]"
proof -
  let ?w = "with_parcel demo_used ([] :: item list)"
  let ?v = "with_parcel demo_one (parcel (exec (writeToParcel copy_camlib (demo_parcel 0x2003 OK) 0x1000) ?w))"
  have c: "cells ?w 0x1000 = Some ((demo_zero 1 0)\<lparr>d_count := 1, d_map := [5 \<mapsto> (1, [7])]\<rparr>)"
    by (simp add: with_parcel_def demo_used_def)
  have L: "cl_alignment copy_camlib = 2 ^ 3" "cl_compact_size copy_camlib m = 16" "length (cl_copy copy_camlib m) = 16" for m
    by (simp_all add: copy_camlib_def demo_camlib_def)
  have v: "valid 0x1000 ?w" using c by (simp add: valid_def)
  have ok: "result (writeToParcel copy_camlib (demo_parcel 0x2003 OK) 0x1000) ?w = OK"
    by (rule write_reports_ok) (simp add: demo_parcel_def)
  have "contents d_map 0 (exec (readFromParcel_object copy_camlib (demo_parcel 0x2003 OK) 0 True) ?v) =
      (case cells ?w 0x1000 of None \<Rightarrow> Map.empty | Some m \<Rightarrow> d_map m)"
    by (rule parcel_roundtrip [OF demo_parcel_laws copy_fresh L(1), where w = ?w and v = ?v and b = "0x1000" and j = 0 and ent = d_map
        and ex = True, THEN conjunct2])
      (use v ok c in \<open>simp_all add: L demo_used_inv demo_one_inv\<close>,
       simp_all add: with_parcel_def demo_parcel_def demo_one_eq copy_camlib_def demo_new_def demo_used_def)
  then show ?thesis by (simp add: c)
qed

text \<open>
  A write that could not reserve its blob is reported as a success: the status of
  \<^verbatim>\<open>writeBlob\<close> is overwritten by that of the last \<^verbatim>\<open>writeInt32\<close>, so the parcel
  holds a size and an offset but no metadata.
\<close>

theorem failed_blob_reported_ok:
  fixes w :: "('m, 'p, 'a) parcel_world_scheme"
  assumes "b \<noteq> 0" and "cells w b \<noteq> None" and "\<And>p v. fst (pa_writeInt32 Q p v) = OK" and "\<And>p n. fst (pa_writeBlob Q p n) \<noteq> OK"
  shows "result (writeToParcel L Q b) w = OK"
  using assms(3) by (rule write_reports_ok)

theorem failed_blob_reported_ok_witness:
  "result (writeToParcel demo_camlib (demo_parcel 0 (- 12)) 0x1000) (with_parcel demo_one []) = OK"
  by (rule failed_blob_reported_ok) (simp_all add: demo_parcel_def with_parcel_def demo_one_eq)

end
