(* ===== verification/Gralloc.thy ===== *)
theory Gralloc
  imports Prelude "HOL-Library.AList"
begin

text \<open>
  The graphics memory interface the three \<^verbatim>\<open>shim/ui\<close> classes share. The gralloc
  module, the native handle functions and the helpers of \<^verbatim>\<open>libui\<close> are not part of
  this repository: they are a parameter, functions of the history of calls and the
  arguments. Every call leaves an event; the newest is the head of the history.
\<close>

section \<open>Data\<close>

type_synonym handle = u32

record rect =
  r_left :: s32
  r_top :: s32
  r_right :: s32
  r_bottom :: s32

text \<open>A native handle: the descriptors and the integers of its data.\<close>

record native =
  n_fds :: "s32 list"
  n_ints :: "s32 list"

text \<open>A locked area is passed as left, top, width and height.\<close>

type_synonym area = "s32 \<times> s32 \<times> s32 \<times> s32"

datatype gfx_event =
    GAlloc s32 s32 s32 s32 int handle
  | GFree handle int
  | GRegister handle int
  | GUnregister handle int
  | GLock handle s32 area int
  | GLockYCbCr handle s32 area int
  | GUnlock handle int
  | GLockAsync handle s32 area int int
  | GLockAsyncYCbCr handle s32 area int int
  | GUnlockAsync handle int
  | GSyncWait int
  | GCloseFd int
  | GHandleCreate handle
  | GHandleClose handle
  | GHandleDelete handle

type_synonym gfx_history = "gfx_event list"

section \<open>The module, a parameter\<close>

text \<open>
  Results are the status first, then what the call stores through its pointers, \<open>None\<close> where
  it stores nothing. A function pointer that may be null is an option.
\<close>

record 'y gralloc =
  gr_version :: nat
  gr_API_VERSION_0_3 :: nat
  gr_ALLOC_MASK :: s32
  gr_alloc :: "gfx_history \<Rightarrow> s32 \<Rightarrow> s32 \<Rightarrow> s32 \<Rightarrow> s32 \<Rightarrow> int \<times> handle option \<times> s32 option"
  gr_free :: "gfx_history \<Rightarrow> handle \<Rightarrow> int"
  gr_register :: "gfx_history \<Rightarrow> handle \<Rightarrow> int"
  gr_unregister :: "gfx_history \<Rightarrow> handle \<Rightarrow> int"
  gr_lock :: "gfx_history \<Rightarrow> handle \<Rightarrow> s32 \<Rightarrow> area \<Rightarrow> int \<times> u32"
  gr_lock_ycbcr :: "(gfx_history \<Rightarrow> handle \<Rightarrow> s32 \<Rightarrow> area \<Rightarrow> int \<times> 'y) option"
  gr_unlock :: "gfx_history \<Rightarrow> handle \<Rightarrow> int"
  gr_lockAsync :: "gfx_history \<Rightarrow> handle \<Rightarrow> s32 \<Rightarrow> area \<Rightarrow> int \<Rightarrow> int \<times> u32"
  gr_lockAsync_ycbcr :: "(gfx_history \<Rightarrow> handle \<Rightarrow> s32 \<Rightarrow> area \<Rightarrow> int \<Rightarrow> int \<times> 'y) option"
  gr_unlockAsync :: "gfx_history \<Rightarrow> handle \<Rightarrow> int \<times> int"
  gr_bytesPerPixel :: "s32 \<Rightarrow> u32"
  gr_handle_create :: "gfx_history \<Rightarrow> u32 \<Rightarrow> u32 \<Rightarrow> handle"
  gr_rect :: "s32 \<Rightarrow> s32 \<Rightarrow> rect"
  gr_rect_width :: "rect \<Rightarrow> s32"
  gr_rect_height :: "rect \<Rightarrow> s32"

section \<open>The state\<close>

text \<open>The allocator's record of a buffer, \<^verbatim>\<open>alloc_rec_t\<close>.\<close>

record alloc_rec =
  rec_w :: u32
  rec_h :: u32
  rec_s :: u32
  rec_format :: s32
  rec_usage :: u32
  rec_size :: u32

record gfx =
  ghist :: gfx_history
  sAllocList :: "(handle \<times> alloc_rec) list"
  natives :: "handle \<rightharpoonup> native"

definition gevent :: "gfx_event \<Rightarrow> ('a gfx_scheme, unit) state" where
  "gevent e = modify (\<lambda>s. s\<lparr>ghist := e # ghist s\<rparr>)"

lemma run_gevent [simp]: "run_state (gevent e) s = ((), s\<lparr>ghist := e # ghist s\<rparr>)"
  by (simp add: gevent_def)

section \<open>Owners of allocated things\<close>

text \<open>
  The contract between an allocator and its clients: a successful allocation gives a new
  handle that is not null, and only a release takes a handle out of what is outstanding.
  Clients are slots: \<open>slots_own out H I\<close> says that the outstanding handles are exactly the
  handles \<open>H i\<close> of the slots \<open>i \<in> I\<close>, each held by one slot.
\<close>

definition slots_own :: "handle set \<Rightarrow> ('i \<Rightarrow> handle) \<Rightarrow> 'i set \<Rightarrow> bool" where
  "slots_own out H I \<longleftrightarrow> out = H ` I \<and> inj_on H I \<and> 0 \<notin> out"

locale buffer_allocator =
  fixes works :: bool
    and allocate :: "'q \<Rightarrow> 's \<Rightarrow> handle option \<times> 's"
    and give_back :: "handle \<Rightarrow> 's \<Rightarrow> 's"
    and outstanding :: "'s \<Rightarrow> handle set"
  assumes allocate_some: "works \<Longrightarrow> allocate q s = (Some h, s') \<Longrightarrow>
      h \<noteq> 0 \<and> h \<notin> outstanding s \<and> outstanding s' = insert h (outstanding s)"
    and allocate_none: "works \<Longrightarrow> allocate q s = (None, s') \<Longrightarrow> outstanding s' = outstanding s"
    and give_back_out: "works \<Longrightarrow> h \<in> outstanding s \<Longrightarrow> outstanding (give_back h s) = outstanding s - {h}"
begin

lemma slot_filled:
  assumes "works" "slots_own (outstanding s) H I" "i \<notin> I" "allocate q s = (Some h, s')"
  shows "slots_own (outstanding s') (H(i := h)) (insert i I)"
  using assms allocate_some [OF assms(1,4)] by (auto simp: slots_own_def inj_on_def)

lemma slot_emptied:
  assumes "works" "slots_own (outstanding s) H I" "i \<in> I"
  shows "slots_own (outstanding (give_back (H i) s)) H (I - {i})"
proof -
  have "H i \<in> outstanding s" using assms(2,3) by (auto simp: slots_own_def)
  from give_back_out [OF assms(1) this] assms(2,3) show ?thesis
    by (auto simp: slots_own_def inj_on_def)
qed

lemma slot_unfilled:
  "works \<Longrightarrow> slots_own (outstanding s) H I \<Longrightarrow> allocate q s = (None, s') \<Longrightarrow> slots_own (outstanding s') H I"
  by (simp add: allocate_none)

end

lemma slots_own_update: "i \<notin> I \<Longrightarrow> slots_own out (H(i := h)) I = slots_own out H I"
  by (auto simp: slots_own_def inj_on_def)

section \<open>A module to run examples on\<close>

text \<open>It has one buffer, at \<open>0x1000\<close>, which it gives out once, and one native handle.\<close>

fun given_out :: "handle \<Rightarrow> gfx_history \<Rightarrow> bool" where
  "given_out k [] = False"
| "given_out k (GAlloc w h f u e k' # hs) = (k' = k \<or> given_out k hs)"
| "given_out k (_ # hs) = given_out k hs"

definition demo_gralloc :: "nat \<Rightarrow> unit gralloc" where
  "demo_gralloc v = \<lparr>gr_version = v, gr_API_VERSION_0_3 = 3, gr_ALLOC_MASK = 0xFFFF,
     gr_alloc = \<lambda>hs w h f u. if given_out 0x1000 hs then (- 12, None, None) else (0, Some 0x1000, Some w),
     gr_free = \<lambda>hs k. 0, gr_register = \<lambda>hs k. 0, gr_unregister = \<lambda>hs k. 0,
     gr_lock = \<lambda>hs k u a. (0, 0x8000), gr_lock_ycbcr = Some (\<lambda>hs k u a. (0, ())), gr_unlock = \<lambda>hs k. 0,
     gr_lockAsync = \<lambda>hs k u a fd. (0, 0x8000), gr_lockAsync_ycbcr = None, gr_unlockAsync = \<lambda>hs k. (0, - 1),
     gr_bytesPerPixel = \<lambda>f. 4, gr_handle_create = \<lambda>hs a b. 0x5000,
     gr_rect = \<lambda>w h. \<lparr>r_left = 0, r_top = 0, r_right = w, r_bottom = h\<rparr>,
     gr_rect_width = \<lambda>r. r_right r - r_left r, gr_rect_height = \<lambda>r. r_bottom r - r_top r\<rparr>"

end
