(* ===== verification/GraphicBufferAllocator.thy ===== *)
theory GraphicBufferAllocator
  imports Gralloc "HOL-Library.Multiset"
begin

text \<open>
  The allocator, \<^verbatim>\<open>shim/ui/GraphicBufferAllocator.cpp\<close>: it forwards to gralloc and
  keeps \<^verbatim>\<open>sAllocList\<close>, the list of what is allocated, for the dump.
\<close>

section \<open>Operations\<close>

text \<open>
  The constructor's \<^verbatim>\<open>mAllocDev\<close>, from what \<^verbatim>\<open>hw_get_module\<close> returns and the
  device \<^verbatim>\<open>gralloc_open\<close> stores, if any. The status of the opening is not looked at. The
  other operations assume that a device was opened.
\<close>

definition new_allocator :: "int \<times> u32 \<Rightarrow> (u32 \<Rightarrow> u32 option) \<Rightarrow> u32" where
  "new_allocator found gralloc_open =
     (let (err, module) = found in
      if err = 0 then (case gralloc_open module of None \<Rightarrow> 0 | Some mAllocDev \<Rightarrow> mAllocDev) else 0)"

text \<open>There is a device exactly where the module was found and opening it stored one that is not null.\<close>

lemma new_allocator_device:
  "new_allocator found gralloc_open \<noteq> 0 \<longleftrightarrow> fst found = 0 \<and> gralloc_open (snd found) \<notin> {None, Some 0}"
  by (auto simp: new_allocator_def split: prod.split option.split)

text \<open>
  \<^verbatim>\<open>alloc\<close>; the last argument is the value of the caller's \<^verbatim>\<open>*handle\<close> before
  the call, the results are the status, \<^verbatim>\<open>*handle\<close> and \<^verbatim>\<open>*stride\<close> after it.
\<close>

definition alloc :: "'y gralloc \<Rightarrow> u32 \<Rightarrow> u32 \<Rightarrow> s32 \<Rightarrow> s32 \<Rightarrow> handle \<Rightarrow> ('a gfx_scheme, int \<times> handle \<times> s32) state" where
  "alloc G width0 height0 format usage0 handle0 =
     (let (width, height) = (if width0 = 0 \<or> height0 = 0 then (1, 1) else (width0, height0));
          usage = usage0 AND gr_ALLOC_MASK G
      in do {
        h \<leftarrow> gets ghist;
        (let (err, outHandle, outStride) = gr_alloc G h width height format usage;
             handle = (case outHandle of None \<Rightarrow> handle0 | Some x \<Rightarrow> x);
             stride = (case outStride of None \<Rightarrow> 0 | Some x \<Rightarrow> x);
             bpp = gr_bytesPerPixel G format;
             rec = \<lparr>rec_w = width, rec_h = height, rec_s = stride, rec_format = format, rec_usage = usage,
               rec_size = height * stride * bpp\<rparr>
         in do {
           gevent (GAlloc width height format usage err handle);
           whenM (err = NO_ERROR) (modify (\<lambda>s. s\<lparr>sAllocList := AList.update handle rec (sAllocList s)\<rparr>));
           State_Monad.return (err, handle, stride)
         })
      })"

definition free_buffer :: "'y gralloc \<Rightarrow> handle \<Rightarrow> ('a gfx_scheme, int) state" where
  "free_buffer G handle = do {
     h \<leftarrow> gets ghist;
     (let err = gr_free G h handle in do {
        gevent (GFree handle err);
        whenM (err = NO_ERROR) (modify (\<lambda>s. s\<lparr>sAllocList := AList.delete handle (sAllocList s)\<rparr>));
        State_Monad.return err
      })
   }"

text \<open>
  What \<^verbatim>\<open>dump\<close> reports: a row for each buffer in the order of the keyed vector,
  by handle, without a size where it is 0, and the total. How the rows are printed and what the
  module's own \<^verbatim>\<open>dump\<close> adds is not modelled.
\<close>

definition dump_list :: "'a gfx_scheme \<Rightarrow> (handle \<times> alloc_rec) list" where
  "dump_list s = sort_key fst (sAllocList s)"

definition dump_rows :: "'a gfx_scheme \<Rightarrow> (handle \<times> u32 option \<times> u32 \<times> u32 \<times> u32 \<times> s32 \<times> u32) list" where
  "dump_rows s = map (\<lambda>(k, r). (k, if rec_size r \<noteq> 0 then Some (rec_size r) else None,
     rec_w r, rec_s r, rec_h r, rec_format r, rec_usage r)) (dump_list s)"

definition dump_total :: "'a gfx_scheme \<Rightarrow> u32" where
  "dump_total s = foldl (\<lambda>total (k, r). total + rec_size r) 0 (dump_list s)"

section \<open>The list and the outstanding allocations\<close>

text \<open>What is allocated and not yet freed with what arguments, read off the history.\<close>

fun booked :: "gfx_history \<Rightarrow> handle \<rightharpoonup> s32 \<times> s32 \<times> s32 \<times> s32" where
  "booked [] = Map.empty"
| "booked (GAlloc w h f u err k # hs) = (if err = NO_ERROR then (booked hs)(k \<mapsto> (w, h, f, u)) else booked hs)"
| "booked (GFree k err # hs) = (if err = NO_ERROR then (booked hs)(k := None) else booked hs)"
| "booked (_ # hs) = booked hs"

abbreviation allocated :: "gfx_history \<Rightarrow> handle set" where
  "allocated hs \<equiv> dom (booked hs)"

definition rec_args :: "alloc_rec \<Rightarrow> s32 \<times> s32 \<times> s32 \<times> s32" where
  "rec_args r = (rec_w r, rec_h r, rec_format r, rec_usage r)"

definition list_inv :: "'a gfx_scheme \<Rightarrow> bool" where
  "list_inv s \<longleftrightarrow> distinct (map fst (sAllocList s)) \<and>
     map_option rec_args \<circ> map_of (sAllocList s) = booked (ghist s) \<and>
     (\<forall>k w h f u. booked (ghist s) k = Some (w, h, f, u) \<longrightarrow> w \<noteq> 0 \<and> h \<noteq> 0)"

text \<open>
  What the sources rely on: a successful allocation stores a handle that is not null and not
  in use, a failed one stores none, and freeing what is allocated succeeds.
\<close>

definition gralloc_laws :: "'y gralloc \<Rightarrow> bool" where
  "gralloc_laws G \<longleftrightarrow>
     (\<forall>hs w h f u err k st. gr_alloc G hs w h f u = (err, k, st) \<longrightarrow>
        (if err = NO_ERROR then \<exists>x. k = Some x \<and> x \<noteq> 0 \<and> x \<notin> allocated hs else k = None)) \<and>
     (\<forall>hs k. k \<in> allocated hs \<longrightarrow> gr_free G hs k = NO_ERROR)"

text \<open>The allocator seen by its clients: the handle of a successful call.\<close>

type_synonym request = "u32 \<times> u32 \<times> s32 \<times> s32 \<times> handle"

fun allocate_request :: "'y gralloc \<Rightarrow> request \<Rightarrow> 'a gfx_scheme \<Rightarrow> handle option \<times> 'a gfx_scheme" where
  "allocate_request G (w, h, f, u, k0) s =
     (let ((err, k, st), s') = run_state (alloc G w h f u k0) s in (if err = NO_ERROR then Some k else None, s'))"

lemma alloc_run:
  "run_state (alloc G w0 h0 f u0 k0) s =
     (let w = (if w0 = 0 \<or> h0 = 0 then 1 else w0); h = (if w0 = 0 \<or> h0 = 0 then 1 else h0); u = u0 AND gr_ALLOC_MASK G;
          r = gr_alloc G (ghist s) w h f u; err = fst r;
          k = (case fst (snd r) of None \<Rightarrow> k0 | Some x \<Rightarrow> x); st = (case snd (snd r) of None \<Rightarrow> 0 | Some x \<Rightarrow> x)
      in ((err, k, st), s\<lparr>ghist := GAlloc w h f u err k # ghist s,
           sAllocList := (if err = NO_ERROR
             then AList.update k \<lparr>rec_w = w, rec_h = h, rec_s = st, rec_format = f, rec_usage = u,
                 rec_size = h * st * gr_bytesPerPixel G f\<rparr> (sAllocList s)
             else sAllocList s)\<rparr>))"
  by (simp add: alloc_def Let_def split: prod.split)

lemma free_run:
  "run_state (free_buffer G k) s =
     (let err = gr_free G (ghist s) k in
      (err, s\<lparr>ghist := GFree k err # ghist s,
        sAllocList := (if err = NO_ERROR then AList.delete k (sAllocList s) else sAllocList s)\<rparr>))"
  by (simp add: free_buffer_def Let_def)

interpretation ga: buffer_allocator "gralloc_laws G" "allocate_request G" "\<lambda>k. exec (free_buffer G k)"
    "\<lambda>s. allocated (ghist s)"
proof (unfold_locales, goal_cases)
  case (1 q s k s')
  obtain w h f u k0 where q: "q = (w, h, f, u, k0)" by (cases q)
  let ?w = "if w = 0 \<or> h = 0 then 1 else w" and ?h = "if w = 0 \<or> h = 0 then 1 else h"
  obtain err x st where r: "gr_alloc G (ghist s) ?w ?h f (u AND gr_ALLOC_MASK G) = (err, x, st)" by (metis surj_pair)
  from 1(1) r have "if err = NO_ERROR then \<exists>y. x = Some y \<and> y \<noteq> 0 \<and> y \<notin> allocated (ghist s) else x = None"
    unfolding gralloc_laws_def by blast
  with 1(2) r q show ?case by (auto simp: alloc_run Let_def split: if_splits)
next
  case (2 q s s')
  obtain w h f u k0 where q: "q = (w, h, f, u, k0)" by (cases q)
  with 2(2) show ?case by (auto simp: alloc_run Let_def split: if_splits)
next
  case (3 k s)
  then have "gr_free G (ghist s) k = NO_ERROR" unfolding gralloc_laws_def by blast
  then show ?case by (simp add: exec_def free_run Let_def)
qed

text \<open>The list names exactly the outstanding buffers, once each.\<close>

datatype allocator_call = AllocCall u32 u32 s32 s32 handle | FreeCall handle

fun allocator_step :: "'y gralloc \<Rightarrow> allocator_call \<Rightarrow> 'a gfx_scheme \<Rightarrow> 'a gfx_scheme" where
  "allocator_step G (AllocCall w h f u k0) s = exec (alloc G w h f u k0) s"
| "allocator_step G (FreeCall k) s = exec (free_buffer G k) s"

lemma update_args:
  "map_option rec_args \<circ> map_of (AList.update k r al) = (map_option rec_args \<circ> map_of al)(k \<mapsto> rec_args r)"
  "map_option rec_args \<circ> map_of (AList.delete k al) = (map_option rec_args \<circ> map_of al)(k := None)"
  by (auto simp: fun_eq_iff update_conv' delete_conv')

lemma allocator_step_inv: "list_inv s \<Longrightarrow> list_inv (allocator_step G e s)"
proof (cases e)
  case (AllocCall w h f u k0)
  assume "list_inv s"
  with AllocCall show ?thesis
    by (auto simp: list_inv_def exec_def alloc_run Let_def update_args distinct_update rec_args_def split: if_splits)
next
  case (FreeCall k)
  assume "list_inv s"
  with FreeCall show ?thesis
    by (auto simp: list_inv_def exec_def free_run Let_def update_args distinct_delete split: if_splits)
qed

interpretation al: free_machine "allocator_step G" list_inv
  by unfold_locales (rule allocator_step_inv)

definition gfx_start :: gfx where
  "gfx_start = \<lparr>ghist = [], sAllocList = [], natives = Map.empty\<rparr>"

lemma foldl_sum: "foldl (\<lambda>t (k, r). t + f r) (a :: u32) xs = a + sum_list (map (f \<circ> snd) xs)"
  by (induction xs arbitrary: a) (auto simp: add.assoc)

lemma dump_total_sum: "dump_total s = sum_list (map (rec_size \<circ> snd) (sAllocList s))"
proof -
  have "mset (map (rec_size \<circ> snd) (dump_list s)) = mset (map (rec_size \<circ> snd) (sAllocList s))"
    by (simp add: dump_list_def)
  then show ?thesis unfolding dump_total_def foldl_sum by (metis add_0 sum_mset_sum_list)
qed

lemma dump_handles: "sorted (map fst (dump_list s))" "set (map fst (dump_rows s)) = fst ` set (sAllocList s)"
  by (auto simp: dump_list_def dump_rows_def comp_def case_prod_unfold)

section \<open>Properties\<close>

text \<open>
  C34. The allocation list is exact: after any sequence of calls and for any behaviour of
  gralloc, it holds once each the buffers that were allocated and not freed, with the
  arguments gralloc was given, none of them of width or height 0; the total the dump reports
  is the sum of the sizes of the buffers on the list.
\<close>

theorem allocation_list_exact:
  "let s = fold (allocator_step G) calls gfx_start in
     distinct (map fst (sAllocList s)) \<and>
     map_option rec_args (map_of (sAllocList s) k) = booked (ghist s) k \<and>
     (case booked (ghist s) k of None \<Rightarrow> True | Some (w, h, f, u) \<Rightarrow> w \<noteq> 0 \<and> h \<noteq> 0) \<and>
     dump_total s = sum_list (map (rec_size \<circ> snd) (sAllocList s))"
proof -
  have inv: "list_inv (fold (allocator_step G) calls gfx_start)"
    by (rule al.run_inv) (simp add: list_inv_def gfx_start_def fun_eq_iff)
  moreover have "case booked (ghist s) k of None \<Rightarrow> True | Some (w, h, f, u) \<Rightarrow> w \<noteq> 0 \<and> h \<noteq> 0"
    if "list_inv s" for s :: gfx
    using that by (auto simp: list_inv_def split: option.split)
  ultimately show ?thesis
    by (auto simp: Let_def list_inv_def dump_total_sum fun_eq_iff)
qed

end
