(* ===== verification/GraphicBufferMapper.thy ===== *)
theory GraphicBufferMapper
  imports Gralloc
begin

text \<open>
  The mapper, \<^verbatim>\<open>shim/ui/GraphicBufferMapper.cpp\<close>: it forwards to gralloc and, where
  the module is too old to take a fence, waits for the fence and closes it first. Results are
  the status and what is stored through the result pointer.
\<close>

section \<open>Operations\<close>

text \<open>The constructor's \<^verbatim>\<open>mAllocMod\<close>; the other operations assume that the module was found.\<close>

definition new_mapper :: "int \<times> u32 \<Rightarrow> u32" where
  "new_mapper found = (let (err, module) = found in if err = 0 then module else 0)"

definition area_of :: "'y gralloc \<Rightarrow> rect \<Rightarrow> area" where
  "area_of G r = (r_left r, r_top r, gr_rect_width G r, gr_rect_height G r)"

definition registerBuffer :: "'y gralloc \<Rightarrow> handle \<Rightarrow> ('a gfx_scheme, int) state" where
  "registerBuffer G handle = do {
     h \<leftarrow> gets ghist;
     (let err = gr_register G h handle in do { gevent (GRegister handle err); State_Monad.return err })
   }"

definition unregisterBuffer :: "'y gralloc \<Rightarrow> handle \<Rightarrow> ('a gfx_scheme, int) state" where
  "unregisterBuffer G handle = do {
     h \<leftarrow> gets ghist;
     (let err = gr_unregister G h handle in do { gevent (GUnregister handle err); State_Monad.return err })
   }"

definition mapper_lock :: "'y gralloc \<Rightarrow> handle \<Rightarrow> s32 \<Rightarrow> rect \<Rightarrow> ('a gfx_scheme, int \<times> u32) state" where
  "mapper_lock G handle usage bounds = do {
     h \<leftarrow> gets ghist;
     (let (err, vaddr) = gr_lock G h handle usage (area_of G bounds) in do {
        gevent (GLock handle usage (area_of G bounds) err);
        State_Monad.return (err, vaddr)
      })
   }"

definition mapper_lockYCbCr :: "'y gralloc \<Rightarrow> handle \<Rightarrow> s32 \<Rightarrow> rect \<Rightarrow> ('a gfx_scheme, int \<times> 'y option) state" where
  "mapper_lockYCbCr G handle usage bounds =
     (case gr_lock_ycbcr G of
        None \<Rightarrow> State_Monad.return (- EINVAL, None)
      | Some lock_ycbcr \<Rightarrow> do {
          h \<leftarrow> gets ghist;
          (let (err, ycbcr) = lock_ycbcr h handle usage (area_of G bounds) in do {
             gevent (GLockYCbCr handle usage (area_of G bounds) err);
             State_Monad.return (err, Some ycbcr)
           })
        })"

definition mapper_unlock :: "'y gralloc \<Rightarrow> handle \<Rightarrow> ('a gfx_scheme, int) state" where
  "mapper_unlock G handle = do {
     h \<leftarrow> gets ghist;
     (let err = gr_unlock G h handle in do { gevent (GUnlock handle err); State_Monad.return err })
   }"

definition sync_wait_close :: "int \<Rightarrow> ('a gfx_scheme, unit) state" where
  "sync_wait_close fenceFd = whenM (0 \<le> fenceFd) (do { gevent (GSyncWait fenceFd); gevent (GCloseFd fenceFd) })"

definition mapper_lockAsync ::
    "'y gralloc \<Rightarrow> handle \<Rightarrow> s32 \<Rightarrow> rect \<Rightarrow> int \<Rightarrow> ('a gfx_scheme, int \<times> u32) state" where
  "mapper_lockAsync G handle usage bounds fenceFd =
     (if gr_API_VERSION_0_3 G \<le> gr_version G then do {
        h \<leftarrow> gets ghist;
        (let (err, vaddr) = gr_lockAsync G h handle usage (area_of G bounds) fenceFd in do {
           gevent (GLockAsync handle usage (area_of G bounds) fenceFd err);
           State_Monad.return (err, vaddr)
         })
      } else do {
        sync_wait_close fenceFd;
        h \<leftarrow> gets ghist;
        (let (err, vaddr) = gr_lock G h handle usage (area_of G bounds) in do {
           gevent (GLock handle usage (area_of G bounds) err);
           State_Monad.return (err, vaddr)
         })
      })"

definition mapper_lockAsyncYCbCr ::
    "'y gralloc \<Rightarrow> handle \<Rightarrow> s32 \<Rightarrow> rect \<Rightarrow> int \<Rightarrow> ('a gfx_scheme, int \<times> 'y option) state" where
  "mapper_lockAsyncYCbCr G handle usage bounds fenceFd =
     (case (if gr_API_VERSION_0_3 G \<le> gr_version G then gr_lockAsync_ycbcr G else None) of
        Some lockAsync_ycbcr \<Rightarrow> do {
          h \<leftarrow> gets ghist;
          (let (err, ycbcr) = lockAsync_ycbcr h handle usage (area_of G bounds) fenceFd in do {
             gevent (GLockAsyncYCbCr handle usage (area_of G bounds) fenceFd err);
             State_Monad.return (err, Some ycbcr)
           })
        }
      | None \<Rightarrow>
          (case gr_lock_ycbcr G of
             Some lock_ycbcr \<Rightarrow> do {
               sync_wait_close fenceFd;
               h \<leftarrow> gets ghist;
               (let (err, ycbcr) = lock_ycbcr h handle usage (area_of G bounds) in do {
                  gevent (GLockYCbCr handle usage (area_of G bounds) err);
                  State_Monad.return (err, Some ycbcr)
                })
             }
           | None \<Rightarrow> do {
               whenM (0 \<le> fenceFd) (gevent (GCloseFd fenceFd));
               State_Monad.return (- EINVAL, None)
             }))"

definition mapper_unlockAsync :: "'y gralloc \<Rightarrow> handle \<Rightarrow> ('a gfx_scheme, int \<times> int) state" where
  "mapper_unlockAsync G handle =
     (if gr_API_VERSION_0_3 G \<le> gr_version G then do {
        h \<leftarrow> gets ghist;
        (let (err, fenceFd) = gr_unlockAsync G h handle in do {
           gevent (GUnlockAsync handle err);
           State_Monad.return (err, fenceFd)
         })
      } else do {
        h \<leftarrow> gets ghist;
        (let err = gr_unlock G h handle in do {
           gevent (GUnlock handle err);
           State_Monad.return (err, - 1)
         })
      })"

section \<open>Fences\<close>

text \<open>The uses that consume a fence: closing it, or handing it to gralloc.\<close>

fun consumes :: "int \<Rightarrow> gfx_event \<Rightarrow> bool" where
  "consumes fd (GCloseFd fd') = (fd' = fd)"
| "consumes fd (GLockAsync k u a fd' e) = (fd' = fd)"
| "consumes fd (GLockAsyncYCbCr k u a fd' e) = (fd' = fd)"
| "consumes fd _ = False"

definition fence_uses :: "int \<Rightarrow> gfx_history \<Rightarrow> nat" where
  "fence_uses fd hs = length (filter (consumes fd) hs)"

text \<open>
  Every lock without a fence comes after a wait for the fence; the history is read from its
  oldest event.
\<close>

fun locks_after_wait :: "int \<Rightarrow> bool \<Rightarrow> gfx_event list \<Rightarrow> bool" where
  "locks_after_wait fd waited [] = True"
| "locks_after_wait fd waited (GSyncWait fd' # es) = locks_after_wait fd (waited \<or> fd' = fd) es"
| "locks_after_wait fd waited (GLock k u a e # es) = (waited \<and> locks_after_wait fd waited es)"
| "locks_after_wait fd waited (GLockYCbCr k u a e # es) = (waited \<and> locks_after_wait fd waited es)"
| "locks_after_wait fd waited (_ # es) = locks_after_wait fd waited es"

text \<open>Only these calls change the state: they add events.\<close>

lemma lockAsync_events:
  "\<exists>evs. ghist (exec (mapper_lockAsync G k u r fd) s) = evs @ ghist s \<and>
     exec (mapper_lockAsync G k u r fd) s = s\<lparr>ghist := evs @ ghist s\<rparr> \<and>
     (0 \<le> fd \<longrightarrow> fence_uses fd evs = 1 \<and> locks_after_wait fd False (rev evs))"
  by (simp add: mapper_lockAsync_def sync_wait_close_def exec_def fence_uses_def Let_def split: prod.split)

lemma lockAsyncYCbCr_events:
  "\<exists>evs. ghist (exec (mapper_lockAsyncYCbCr G k u r fd) s) = evs @ ghist s \<and>
     exec (mapper_lockAsyncYCbCr G k u r fd) s = s\<lparr>ghist := evs @ ghist s\<rparr> \<and>
     (0 \<le> fd \<longrightarrow> fence_uses fd evs = 1 \<and> locks_after_wait fd False (rev evs))"
  by (auto simp: mapper_lockAsyncYCbCr_def sync_wait_close_def exec_def fence_uses_def Let_def
      split: prod.split option.split)

section \<open>Properties\<close>

text \<open>
  C35. A fence given to a lock is used up exactly once, by gralloc or by a close, whatever
  functions the gralloc module has and whatever they return; a lock that does not take the
  fence itself only happens after a wait for it.
\<close>

theorem fence_consumed_once:
  assumes "0 \<le> fd"
  shows "(\<exists>evs. ghist (exec (mapper_lockAsync G k u r fd) s) = evs @ ghist s \<and>
      fence_uses fd evs = 1 \<and> locks_after_wait fd False (rev evs)) \<and>
    (\<exists>evs. ghist (exec (mapper_lockAsyncYCbCr G k u r fd) s) = evs @ ghist s \<and>
      fence_uses fd evs = 1 \<and> locks_after_wait fd False (rev evs))"
  using lockAsync_events [of G k u r fd s] lockAsyncYCbCr_events [of G k u r fd s] assms by blast

theorem fence_consumed_once_witness:
  "\<exists>evs. ghist (exec (mapper_lockAsync (demo_gralloc 2) 0x1000 0 (gr_rect (demo_gralloc 2) 4 4) 7)
       \<lparr>ghist = [], sAllocList = [], natives = Map.empty\<rparr>) = evs @ [] \<and> fence_uses 7 evs = 1"
  using fence_consumed_once [of 7 "demo_gralloc 2" "0x1000" 0 "gr_rect (demo_gralloc 2) 4 4"
      "\<lparr>ghist = [], sAllocList = [], natives = Map.empty\<rparr>"] by auto

end
