(* ===== verification/GraphicBuffer.thy ===== *)
theory GraphicBuffer
  imports GraphicBufferAllocator GraphicBufferMapper
begin

text \<open>
  The buffer object, \<^verbatim>\<open>shim/ui/GraphicBuffer.cpp\<close>: who owns the handle, sizes, locks
  and the flat form in which a buffer is sent to another process. Objects are numbers; the
  world holds their fields, the objects that exist and the counter of \<^verbatim>\<open>getUniqueId\<close>.
\<close>

section \<open>Data\<close>

datatype owner = ownNone | ownHandle | ownData

record gbuf =
  gb_width :: s32
  gb_height :: s32
  gb_stride :: s32
  gb_format :: s32
  gb_usage :: s32
  gb_handle :: handle
  gb_owner :: owner
  gb_initCheck :: int
  gb_wrapped :: "nat option"
  gb_id :: u64

record gworld = gfx +
  gbufs :: "nat \<Rightarrow> gbuf"
  glive :: "nat set"
  nextId :: u32

definition setBuf :: "nat \<Rightarrow> (gbuf \<Rightarrow> gbuf) \<Rightarrow> ('a gworld_scheme, unit) state" where
  "setBuf i f = modify (\<lambda>s. s\<lparr>gbufs := (gbufs s)(i := f (gbufs s i))\<rparr>)"

definition getBuf :: "nat \<Rightarrow> ('a gworld_scheme, gbuf) state" where
  "getBuf i = gets (\<lambda>s. gbufs s i)"

section \<open>Construction\<close>

definition getUniqueId :: "s32 \<Rightarrow> ('a gworld_scheme, u64) state" where
  "getUniqueId pid = do {
     n \<leftarrow> gets nextId;
     modify (\<lambda>s. s\<lparr>nextId := n + 1\<rparr>);
     State_Monad.return (push_bit 32 (scast pid) OR ucast n)
   }"

definition blank :: "owner \<Rightarrow> u64 \<Rightarrow> gbuf" where
  "blank own ident = \<lparr>gb_width = 0, gb_height = 0, gb_stride = 0, gb_format = 0, gb_usage = 0, gb_handle = 0,
     gb_owner = own, gb_initCheck = NO_ERROR, gb_wrapped = None, gb_id = ident\<rparr>"

definition new_empty :: "s32 \<Rightarrow> nat \<Rightarrow> ('a gworld_scheme, unit) state" where
  "new_empty pid i = do { ident \<leftarrow> getUniqueId pid; setBuf i (\<lambda>_. blank ownData ident) }"

definition initSize :: "'y gralloc \<Rightarrow> nat \<Rightarrow> u32 \<Rightarrow> u32 \<Rightarrow> s32 \<Rightarrow> s32 \<Rightarrow> ('a gworld_scheme, int) state" where
  "initSize G i w h format reqUsage = do {
     b \<leftarrow> getBuf i;
     (err, handle, stride) \<leftarrow> alloc G w h format reqUsage (gb_handle b);
     setBuf i (\<lambda>b. b\<lparr>gb_handle := handle, gb_stride := stride\<rparr>);
     whenM (err = NO_ERROR)
       (setBuf i (\<lambda>b. b\<lparr>gb_width := w, gb_height := h, gb_format := format, gb_usage := reqUsage\<rparr>));
     State_Monad.return err
   }"

definition new_sized :: "'y gralloc \<Rightarrow> s32 \<Rightarrow> nat \<Rightarrow> u32 \<Rightarrow> u32 \<Rightarrow> s32 \<Rightarrow> s32 \<Rightarrow> ('a gworld_scheme, unit) state" where
  "new_sized G pid i w h reqFormat reqUsage = do {
     ident \<leftarrow> getUniqueId pid;
     setBuf i (\<lambda>_. blank ownData ident);
     err \<leftarrow> initSize G i w h reqFormat reqUsage;
     setBuf i (\<lambda>b. b\<lparr>gb_initCheck := err\<rparr>)
   }"

definition new_from_handle ::
    "s32 \<Rightarrow> nat \<Rightarrow> u32 \<Rightarrow> u32 \<Rightarrow> s32 \<Rightarrow> s32 \<Rightarrow> u32 \<Rightarrow> handle \<Rightarrow> bool \<Rightarrow> ('a gworld_scheme, unit) state" where
  "new_from_handle pid i w h inFormat inUsage inStride inHandle keepOwnership = do {
     ident \<leftarrow> getUniqueId pid;
     setBuf i (\<lambda>_. (blank (if keepOwnership then ownHandle else ownNone) ident)
       \<lparr>gb_width := w, gb_height := h, gb_stride := inStride, gb_format := inFormat, gb_usage := inUsage, gb_handle := inHandle\<rparr>)
   }"

definition new_wrapping :: "s32 \<Rightarrow> nat \<Rightarrow> nat \<Rightarrow> bool \<Rightarrow> ('a gworld_scheme, unit) state" where
  "new_wrapping pid i j keepOwnership = do {
     ident \<leftarrow> getUniqueId pid;
     buffer \<leftarrow> getBuf j;
     setBuf i (\<lambda>_. (blank (if keepOwnership then ownHandle else ownNone) ident)
       \<lparr>gb_width := gb_width buffer, gb_height := gb_height buffer, gb_stride := gb_stride buffer,
        gb_format := gb_format buffer, gb_usage := gb_usage buffer, gb_handle := gb_handle buffer, gb_wrapped := Some j\<rparr>)
   }"

section \<open>Freeing and reallocating\<close>

definition native_handle_free :: "handle \<Rightarrow> ('a gworld_scheme, unit) state" where
  "native_handle_free handle = do {
     gevent (GHandleClose handle);
     gevent (GHandleDelete handle);
     modify (\<lambda>s. s\<lparr>natives := (natives s)(handle := None)\<rparr>)
   }"

definition free_handle :: "'y gralloc \<Rightarrow> nat \<Rightarrow> ('a gworld_scheme, unit) state" where
  "free_handle G i = do {
     b \<leftarrow> getBuf i;
     (case gb_owner b of
        ownHandle \<Rightarrow> do { unregisterBuffer G (gb_handle b); native_handle_free (gb_handle b) }
      | ownData \<Rightarrow> do { free_buffer G (gb_handle b); State_Monad.return () }
      | ownNone \<Rightarrow> State_Monad.return ());
     setBuf i (\<lambda>b. b\<lparr>gb_wrapped := None\<rparr>)
   }"

definition destroy :: "'y gralloc \<Rightarrow> nat \<Rightarrow> ('a gworld_scheme, unit) state" where
  "destroy G i = do { b \<leftarrow> getBuf i; whenM (gb_handle b \<noteq> 0) (free_handle G i) }"

definition initCheck :: "nat \<Rightarrow> ('a gworld_scheme, int) state" where
  "initCheck i = do { b \<leftarrow> getBuf i; State_Monad.return (gb_initCheck b) }"

text \<open>The getters of the header.\<close>

definition getWidth :: "nat \<Rightarrow> ('a gworld_scheme, u32) state" where
  "getWidth i = do { b \<leftarrow> getBuf i; State_Monad.return (gb_width b) }"

definition getHeight :: "nat \<Rightarrow> ('a gworld_scheme, u32) state" where
  "getHeight i = do { b \<leftarrow> getBuf i; State_Monad.return (gb_height b) }"

definition getStride :: "nat \<Rightarrow> ('a gworld_scheme, u32) state" where
  "getStride i = do { b \<leftarrow> getBuf i; State_Monad.return (gb_stride b) }"

definition getUsage :: "nat \<Rightarrow> ('a gworld_scheme, u32) state" where
  "getUsage i = do { b \<leftarrow> getBuf i; State_Monad.return (gb_usage b) }"

definition getPixelFormat :: "nat \<Rightarrow> ('a gworld_scheme, s32) state" where
  "getPixelFormat i = do { b \<leftarrow> getBuf i; State_Monad.return (gb_format b) }"

definition getBounds :: "'y gralloc \<Rightarrow> nat \<Rightarrow> ('a gworld_scheme, rect) state" where
  "getBounds G i = do { b \<leftarrow> getBuf i; State_Monad.return (gr_rect G (gb_width b) (gb_height b)) }"

definition getId :: "nat \<Rightarrow> ('a gworld_scheme, u64) state" where
  "getId i = do { b \<leftarrow> getBuf i; State_Monad.return (gb_id b) }"

definition reallocate :: "'y gralloc \<Rightarrow> nat \<Rightarrow> u32 \<Rightarrow> u32 \<Rightarrow> s32 \<Rightarrow> s32 \<Rightarrow> ('a gworld_scheme, int) state" where
  "reallocate G i w h f reqUsage = do {
     b \<leftarrow> getBuf i;
     if gb_owner b \<noteq> ownData then State_Monad.return INVALID_OPERATION
     else if gb_handle b \<noteq> 0 \<and> w = gb_width b \<and> h = gb_height b \<and> f = gb_format b \<and> reqUsage = gb_usage b
     then State_Monad.return NO_ERROR
     else do {
       whenM (gb_handle b \<noteq> 0) (do {
         free_buffer G (gb_handle b);
         setBuf i (\<lambda>b. b\<lparr>gb_handle := 0\<rparr>)
       });
       initSize G i w h f reqUsage
     }
   }"

section \<open>Locks\<close>

text \<open>The bounds test all four locks make, on signed values.\<close>

definition outside :: "gbuf \<Rightarrow> rect \<Rightarrow> bool" where
  "outside b r \<longleftrightarrow> sint (r_left r) < 0 \<or> sint (gb_width b) < sint (r_right r) \<or>
     sint (r_top r) < 0 \<or> sint (gb_height b) < sint (r_bottom r)"

definition whole :: "'y gralloc \<Rightarrow> gbuf \<Rightarrow> rect" where
  "whole G b = gr_rect G (gb_width b) (gb_height b)"

definition lock_rect :: "'y gralloc \<Rightarrow> nat \<Rightarrow> s32 \<Rightarrow> rect \<Rightarrow> ('a gworld_scheme, int \<times> u32 option) state" where
  "lock_rect G i usage rect = do {
     b \<leftarrow> getBuf i;
     if outside b rect then State_Monad.return (BAD_VALUE, None)
     else do { (res, vaddr) \<leftarrow> mapper_lock G (gb_handle b) usage rect; State_Monad.return (res, Some vaddr) }
   }"

definition lock_whole :: "'y gralloc \<Rightarrow> nat \<Rightarrow> s32 \<Rightarrow> ('a gworld_scheme, int \<times> u32 option) state" where
  "lock_whole G i usage = do { b \<leftarrow> getBuf i; lock_rect G i usage (whole G b) }"

definition lockYCbCr_rect :: "'y gralloc \<Rightarrow> nat \<Rightarrow> s32 \<Rightarrow> rect \<Rightarrow> ('a gworld_scheme, int \<times> 'y option) state" where
  "lockYCbCr_rect G i usage rect = do {
     b \<leftarrow> getBuf i;
     if outside b rect then State_Monad.return (BAD_VALUE, None)
     else mapper_lockYCbCr G (gb_handle b) usage rect
   }"

definition lockYCbCr_whole :: "'y gralloc \<Rightarrow> nat \<Rightarrow> s32 \<Rightarrow> ('a gworld_scheme, int \<times> 'y option) state" where
  "lockYCbCr_whole G i usage = do { b \<leftarrow> getBuf i; lockYCbCr_rect G i usage (whole G b) }"

definition unlock_buffer :: "'y gralloc \<Rightarrow> nat \<Rightarrow> ('a gworld_scheme, int) state" where
  "unlock_buffer G i = do { b \<leftarrow> getBuf i; mapper_unlock G (gb_handle b) }"

definition lockAsync_rect ::
    "'y gralloc \<Rightarrow> nat \<Rightarrow> s32 \<Rightarrow> rect \<Rightarrow> int \<Rightarrow> ('a gworld_scheme, int \<times> u32 option) state" where
  "lockAsync_rect G i usage rect fenceFd = do {
     b \<leftarrow> getBuf i;
     if outside b rect then State_Monad.return (BAD_VALUE, None)
     else do { (res, vaddr) \<leftarrow> mapper_lockAsync G (gb_handle b) usage rect fenceFd; State_Monad.return (res, Some vaddr) }
   }"

definition lockAsync_whole :: "'y gralloc \<Rightarrow> nat \<Rightarrow> s32 \<Rightarrow> int \<Rightarrow> ('a gworld_scheme, int \<times> u32 option) state" where
  "lockAsync_whole G i usage fenceFd = do { b \<leftarrow> getBuf i; lockAsync_rect G i usage (whole G b) fenceFd }"

definition lockAsyncYCbCr_rect ::
    "'y gralloc \<Rightarrow> nat \<Rightarrow> s32 \<Rightarrow> rect \<Rightarrow> int \<Rightarrow> ('a gworld_scheme, int \<times> 'y option) state" where
  "lockAsyncYCbCr_rect G i usage rect fenceFd = do {
     b \<leftarrow> getBuf i;
     if outside b rect then State_Monad.return (BAD_VALUE, None)
     else mapper_lockAsyncYCbCr G (gb_handle b) usage rect fenceFd
   }"

definition lockAsyncYCbCr_whole :: "'y gralloc \<Rightarrow> nat \<Rightarrow> s32 \<Rightarrow> int \<Rightarrow> ('a gworld_scheme, int \<times> 'y option) state" where
  "lockAsyncYCbCr_whole G i usage fenceFd = do { b \<leftarrow> getBuf i; lockAsyncYCbCr_rect G i usage (whole G b) fenceFd }"

definition unlockAsync_buffer :: "'y gralloc \<Rightarrow> nat \<Rightarrow> ('a gworld_scheme, int \<times> int) state" where
  "unlockAsync_buffer G i = do { b \<leftarrow> getBuf i; mapper_unlockAsync G (gb_handle b) }"

section \<open>The flat form\<close>

definition GBFR :: s32 where "GBFR = 0x47424652"

definition numFds :: "(handle \<rightharpoonup> native) \<Rightarrow> handle \<Rightarrow> u32" where
  "numFds ns k = (case ns k of None \<Rightarrow> 0 | Some n \<Rightarrow> word_of_nat (length (n_fds n)))"

definition numInts :: "(handle \<rightharpoonup> native) \<Rightarrow> handle \<Rightarrow> u32" where
  "numInts ns k = (case ns k of None \<Rightarrow> 0 | Some n \<Rightarrow> word_of_nat (length (n_ints n)))"

definition getFlattenedSize :: "'a gworld_scheme \<Rightarrow> nat \<Rightarrow> u32" where
  "getFlattenedSize s i =
     (10 + (if gb_handle (gbufs s i) \<noteq> 0 then numInts (natives s) (gb_handle (gbufs s i)) else 0)) * 4"

definition getFdCount :: "'a gworld_scheme \<Rightarrow> nat \<Rightarrow> u32" where
  "getFdCount s i = (if gb_handle (gbufs s i) \<noteq> 0 then numFds (natives s) (gb_handle (gbufs s i)) else 0)"

text \<open>
  What \<^verbatim>\<open>flatten\<close> does for its caller: the integers and descriptors stored from the
  start of the two buffers, by how many integers the buffer pointers move, and the new counts.
\<close>

record flat_out =
  fo_status :: int
  fo_ints :: "s32 list"
  fo_fds :: "s32 list"
  fo_advance :: nat
  fo_size :: u32
  fo_fd_advance :: nat
  fo_count :: u32

definition flatten :: "'a gworld_scheme \<Rightarrow> nat \<Rightarrow> u32 \<Rightarrow> u32 \<Rightarrow> flat_out" where
  "flatten s i size0 count0 =
     (let b = gbufs s i; sizeNeeded = getFlattenedSize s i; fdCountNeeded = getFdCount s i;
          fail = \<lparr>fo_status = NO_MEMORY, fo_ints = [], fo_fds = [], fo_advance = 0, fo_size = size0,
            fo_fd_advance = 0, fo_count = count0\<rparr>
      in if size0 < sizeNeeded then fail
         else if count0 < fdCountNeeded then fail
         else (let head = [GBFR, gb_width b, gb_height b, gb_stride b, gb_format b, gb_usage b,
                   ucast (drop_bit 32 (gb_id b)), ucast (gb_id b AND 0xFFFFFFFF)];
                   n = (case natives s (gb_handle b) of None \<Rightarrow> \<lparr>n_fds = [], n_ints = []\<rparr> | Some n \<Rightarrow> n)
               in if gb_handle b \<noteq> 0 then
                    \<lparr>fo_status = NO_ERROR,
                     fo_ints = head @ [numFds (natives s) (gb_handle b), numInts (natives s) (gb_handle b)] @ n_ints n,
                     fo_fds = n_fds n, fo_advance = unat sizeNeeded, fo_size = size0 - sizeNeeded,
                     fo_fd_advance = unat fdCountNeeded, fo_count = count0 - fdCountNeeded\<rparr>
                  else
                    \<lparr>fo_status = NO_ERROR, fo_ints = head @ [0, 0], fo_fds = [], fo_advance = unat sizeNeeded,
                     fo_size = size0 - sizeNeeded, fo_fd_advance = 0, fo_count = count0\<rparr>))"

text \<open>
  \<^verbatim>\<open>unflatten\<close> reads from memory it did not create: \<open>buf\<close> and \<open>fds\<close> are the
  integers that are there. A read outside them is \<open>Inl\<close> of the index; otherwise the status,
  the two moves of the pointers, the new size and count.
\<close>

definition reading :: "s32 list \<Rightarrow> nat \<Rightarrow> (s32 \<Rightarrow> ('s, nat + 'r) state) \<Rightarrow> ('s, nat + 'r) state" where
  "reading buf k f = (if k < length buf then f (buf ! k) else State_Monad.return (Inl k))"

definition clear_fields :: "gbuf \<Rightarrow> gbuf" where
  "clear_fields b = b\<lparr>gb_width := 0, gb_height := 0, gb_stride := 0, gb_format := 0, gb_usage := 0, gb_handle := 0\<rparr>"

type_synonym unflat = "int \<times> nat \<times> u32 \<times> nat \<times> u32"

text \<open>The part after the checks: create the handle, take its data, register it.\<close>

definition adopt :: "'y gralloc \<Rightarrow> nat \<Rightarrow> s32 list \<Rightarrow> u32 \<Rightarrow> u32 \<Rightarrow> s32 list \<Rightarrow> ('a gworld_scheme, int) state" where
  "adopt G i buf nfds nints fds = do {
     created \<leftarrow> (if nfds \<noteq> 0 \<or> nints \<noteq> 0 then do {
         setBuf i (\<lambda>b. b\<lparr>gb_width := buf ! 1, gb_height := buf ! 2, gb_stride := buf ! 3,
           gb_format := buf ! 4, gb_usage := buf ! 5\<rparr>);
         hs \<leftarrow> gets ghist;
         (let h = gr_handle_create G hs nfds nints in do {
           gevent (GHandleCreate h);
           if h = 0 then do { setBuf i clear_fields; State_Monad.return False }
           else do {
             modify (\<lambda>s. s\<lparr>natives := (natives s)(h \<mapsto> \<lparr>n_fds = take (unat nfds) fds, n_ints = take (unat nints) (drop 10 buf)\<rparr>)\<rparr>);
             setBuf i (\<lambda>b. b\<lparr>gb_handle := h\<rparr>);
             State_Monad.return True
           }
         })
       } else do { setBuf i clear_fields; State_Monad.return True });
     if \<not> created then State_Monad.return NO_MEMORY
     else do {
       setBuf i (\<lambda>b. b\<lparr>gb_id := push_bit 32 (scast (buf ! 6)) OR ucast (buf ! 7), gb_owner := ownHandle\<rparr>);
       b \<leftarrow> getBuf i;
       err \<leftarrow> (if gb_handle b \<noteq> 0 then registerBuffer G (gb_handle b) else State_Monad.return NO_ERROR);
       if err \<noteq> NO_ERROR then do { setBuf i clear_fields; State_Monad.return err }
       else State_Monad.return NO_ERROR
     }
   }"

definition unflatten ::
    "'y gralloc \<Rightarrow> nat \<Rightarrow> s32 list \<Rightarrow> u32 \<Rightarrow> s32 list \<Rightarrow> u32 \<Rightarrow> ('a gworld_scheme, nat + unflat) state" where
  "unflatten G i buf size0 fds count0 =
     (let fail = (\<lambda>e. State_Monad.return (Inr (e, 0, size0, 0, count0))) in
      if size0 < 8 * 4 then fail NO_MEMORY
      else reading buf 0 (\<lambda>magic. if magic \<noteq> GBFR then fail BAD_TYPE
      else reading buf 8 (\<lambda>nfds. reading buf 9 (\<lambda>nints.
        if 4096 \<le> nfds \<or> 4096 - 10 \<le> nints then do { setBuf i clear_fields; fail BAD_VALUE }
        else (let sizeNeeded = (10 + nints) * 4 in
          if size0 < sizeNeeded then fail NO_MEMORY
          else if count0 < nfds then fail NO_MEMORY
          else if length fds < unat nfds then State_Monad.return (Inl (length fds))
          else if length buf < 10 + unat nints then State_Monad.return (Inl (length buf))
          else do {
            b \<leftarrow> getBuf i;
            whenM (gb_handle b \<noteq> 0) (free_handle G i);
            err \<leftarrow> adopt G i buf nfds nints fds;
            if err \<noteq> NO_ERROR then fail err
            else State_Monad.return (Inr (NO_ERROR, unat sizeNeeded, size0 - sizeNeeded, unat nfds, count0 - nfds))
          })))))"

lemma run_buf [simp]:
  "run_state (getBuf i) s = (gbufs s i, s)"
  "run_state (setBuf i f) s = ((), s\<lparr>gbufs := (gbufs s)(i := f (gbufs s i))\<rparr>)"
  by (simp_all add: getBuf_def setBuf_def)

lemma exec_buf [simp]:
  "exec (getBuf i) s = s" "result (getBuf i) s = gbufs s i"
  "exec (setBuf i f) s = s\<lparr>gbufs := (gbufs s)(i := f (gbufs s i))\<rparr>"
  by (simp_all add: getBuf_def setBuf_def)

section \<open>Identifiers\<close>

text \<open>The identifiers of \<open>n\<close> objects created one after the other.\<close>

fun take_ids :: "s32 \<Rightarrow> nat \<Rightarrow> 'a gworld_scheme \<Rightarrow> u64 list" where
  "take_ids pid 0 s = []"
| "take_ids pid (Suc n) s = result (getUniqueId pid) s # take_ids pid n (exec (getUniqueId pid) s)"

lemma take_ids_map:
  "take_ids pid n s = map (\<lambda>k. push_bit 32 (scast pid) OR ucast (nextId s + word_of_nat k)) [0..<n]"
proof (induction n arbitrary: s)
  case (Suc n)
  have up: "[0..<Suc n] = 0 # map Suc [0..<n]" by (simp add: upt_conv_Cons map_Suc_upt del: upt_Suc)
  have sh: "nextId s + word_of_nat (Suc k) = nextId s + 1 + word_of_nat k" for k by simp
  show ?case
    unfolding up take_ids.simps Suc
    by (simp add: getUniqueId_def exec_def result_def comp_def sh del: of_nat_Suc)
qed simp

lemma id_halves:
  fixes pid n :: s32
  defines "x \<equiv> push_bit 32 (scast pid) OR ucast n :: u64"
  shows "(ucast x :: u32) = n" "(ucast (drop_bit 32 x) :: u32) = pid"
proof -
  show "(ucast x :: u32) = n"
    by (rule bit_word_eqI) (simp add: x_def bit_simps)
  show "(ucast (drop_bit 32 x) :: u32) = pid"
    by (rule bit_word_eqI) (auto simp: x_def bit_simps dest: bit_imp_le_length)
qed

lemma halves_id:
  fixes x :: u64
  shows "push_bit 32 (scast (ucast (drop_bit 32 x) :: s32)) OR ucast (ucast (x AND 0xFFFFFFFF) :: s32) = x"
proof (rule bit_word_eqI)
  fix n assume n: "n < LENGTH(64)"
  have m: "(0xFFFFFFFF :: u64) = mask 32" by (simp add: mask_eq_exp_minus_1)
  show "bit (push_bit 32 (scast (ucast (drop_bit 32 x) :: s32)) OR ucast (ucast (x AND 0xFFFFFFFF) :: s32) :: u64) n = bit x n"
    using n by (auto simp: m bit_simps)
qed

section \<open>Locks\<close>

fun locked_areas :: "gfx_history \<Rightarrow> area list" where
  "locked_areas [] = []"
| "locked_areas (GLock k u a e # hs) = a # locked_areas hs"
| "locked_areas (GLockYCbCr k u a e # hs) = a # locked_areas hs"
| "locked_areas (GLockAsync k u a fd e # hs) = a # locked_areas hs"
| "locked_areas (GLockAsyncYCbCr k u a fd e # hs) = a # locked_areas hs"
| "locked_areas (_ # hs) = locked_areas hs"

definition inside :: "gbuf \<Rightarrow> area \<Rightarrow> bool" where
  "inside b a = (case a of (l, t, w, h) \<Rightarrow>
     0 \<le> sint l \<and> 0 \<le> sint w \<and> sint l + sint w \<le> sint (gb_width b) \<and>
     0 \<le> sint t \<and> 0 \<le> sint h \<and> sint t + sint h \<le> sint (gb_height b))"

text \<open>What the sources use of \<^verbatim>\<open>Rect\<close>.\<close>

definition rect_laws :: "'y gralloc \<Rightarrow> bool" where
  "rect_laws G \<longleftrightarrow> (\<forall>r. gr_rect_width G r = r_right r - r_left r \<and> gr_rect_height G r = r_bottom r - r_top r) \<and>
     (\<forall>w h. gr_rect G w h = \<lparr>r_left = 0, r_top = 0, r_right = w, r_bottom = h\<rparr>)"

lemma sint_diff:
  fixes a b :: s32
  assumes "0 \<le> sint b" "sint b \<le> sint a"
  shows "sint (a - b) = sint a - sint b"
proof -
  have "sint a < 2 ^ 31" using sint_lt [of a] by simp
  with assms show ?thesis
    unfolding sint_word_ariths by (intro signed_take_bit_int_eq_self) auto
qed

lemma area_inside:
  assumes "rect_laws G" "\<not> outside b r" "sint (r_left r) \<le> sint (r_right r)" "sint (r_top r) \<le> sint (r_bottom r)"
  shows "inside b (area_of G r)"
proof -
  have "sint (r_right r - r_left r) = sint (r_right r) - sint (r_left r)"
    "sint (r_bottom r - r_top r) = sint (r_bottom r) - sint (r_top r)"
    using assms(2-4) by (auto intro!: sint_diff simp: outside_def not_less)
  with assms show ?thesis by (auto simp: area_of_def inside_def rect_laws_def outside_def not_less)
qed

section \<open>Who owns what is allocated\<close>

text \<open>The live objects \<open>L\<close> that hold an allocation of their own.\<close>

definition owners :: "nat set \<Rightarrow> 'a gworld_scheme \<Rightarrow> nat set" where
  "owners L s = {i \<in> L. gb_owner (gbufs s i) = ownData \<and> gb_handle (gbufs s i) \<noteq> 0}"

text \<open>
  Who holds an allocation: the owners, and for each handle of the set \<open>X\<close> a place of its own
  that nobody frees. \<open>X\<close> is for the handles that were dropped.
\<close>

definition held :: "'a gworld_scheme \<Rightarrow> nat + handle \<Rightarrow> handle" where
  "held s = case_sum (\<lambda>i. gb_handle (gbufs s i)) (\<lambda>k. k)"

definition holders :: "handle set \<Rightarrow> nat set \<Rightarrow> 'a gworld_scheme \<Rightarrow> (nat + handle) set" where
  "holders X L s = Inl ` owners L s \<union> Inr ` X"

lemma held_simps [simp]: "held s (Inl i) = gb_handle (gbufs s i)" "held s (Inr k) = k"
  by (simp_all add: held_def)

lemma holders_iff [simp]: "Inl i \<in> holders X L s \<longleftrightarrow> i \<in> owners L s" "Inr k \<in> holders X L s \<longleftrightarrow> k \<in> X"
  by (auto simp: holders_def)

definition owned_once :: "handle set \<Rightarrow> nat set \<Rightarrow> 'a gworld_scheme \<Rightarrow> bool" where
  "owned_once X L s \<longleftrightarrow> slots_own (allocated (ghist s)) (held s) (holders X L s)"

lemma owned_once_iff:
  "owned_once X L s \<longleftrightarrow> allocated (ghist s) = (\<lambda>i. gb_handle (gbufs s i)) ` owners L s \<union> X \<and>
     inj_on (\<lambda>i. gb_handle (gbufs s i)) (owners L s) \<and> (\<lambda>i. gb_handle (gbufs s i)) ` owners L s \<inter> X = {} \<and>
     0 \<notin> allocated (ghist s)"
proof -
  let ?O = "owners L s" and ?h = "\<lambda>i. gb_handle (gbufs s i)"
  have "held s ` holders X L s = ?h ` ?O \<union> X"
    by (simp add: holders_def image_Un image_image)
  moreover have "inj_on (held s) (holders X L s) \<longleftrightarrow> inj_on ?h ?O \<and> ?h ` ?O \<inter> X = {}"
  proof -
    have "inj_on (held s) (Inl ` ?O) \<longleftrightarrow> inj_on ?h ?O" by (auto simp: inj_on_def)
    moreover have "inj_on (held s) (Inr ` X)" by (auto simp: inj_on_def)
    moreover have "Inl ` ?O - Inr ` X = Inl ` ?O" "Inr ` X - Inl ` ?O = Inr ` X" by auto
    ultimately show ?thesis by (simp add: holders_def inj_on_Un image_image)
  qed
  ultimately show ?thesis by (auto simp: owned_once_def slots_own_def)
qed


text \<open>Objects that are no owners before and after may change freely.\<close>

lemma owned_once_cong:
  assumes "allocated (ghist t) = allocated (ghist s)" "owners L' t = owners L s"
    and "\<And>i. i \<in> owners L s \<Longrightarrow> gb_handle (gbufs t i) = gb_handle (gbufs s i)"
  shows "owned_once X L' t = owned_once X L s"
proof -
  have "(\<lambda>i. gb_handle (gbufs t i)) ` owners L s = (\<lambda>i. gb_handle (gbufs s i)) ` owners L s"
    using assms(3) by (rule image_cong [OF refl])
  moreover have "inj_on (\<lambda>i. gb_handle (gbufs t i)) (owners L s) = inj_on (\<lambda>i. gb_handle (gbufs s i)) (owners L s)"
    using assms(3) by (rule inj_on_cong)
  ultimately show ?thesis by (simp only: owned_once_iff assms(1,2))
qed

lemma owned_once_glive [simp]: "owned_once X L (s\<lparr>glive := M\<rparr>) = owned_once X L s"
  by (rule owned_once_cong) (simp_all add: owners_def)



lemma adopt_frame:
  fixes s :: "'a gworld_scheme" and G :: "'y gralloc" and i :: nat and buf fds :: "s32 list" and n m :: u32
  defines "t \<equiv> exec (adopt G i buf n m fds) s"
  shows "allocated (ghist t) = allocated (ghist s)" "j \<noteq> i \<Longrightarrow> gbufs t j = gbufs s j"
    "\<not> (gb_owner (gbufs t i) = ownData \<and> gb_handle (gbufs t i) \<noteq> 0)" "glive t = glive s"
  by (auto simp: t_def adopt_def exec_def registerBuffer_def clear_fields_def Let_def split: if_splits)

lemma free_handle_frame:
  fixes s :: "'a gworld_scheme" and G :: "'y gralloc" and i :: nat
  defines "t \<equiv> exec (free_handle G i) s"
  shows "gb_handle (gbufs t j) = gb_handle (gbufs s j)" "gb_owner (gbufs t j) = gb_owner (gbufs s j)"
    "allocated (ghist t) = (if gb_owner (gbufs s i) = ownData
       then allocated (ghist (exec (free_buffer G (gb_handle (gbufs s i))) s)) else allocated (ghist s))"
    "glive t = glive s"
  by (auto simp: t_def free_handle_def exec_def native_handle_free_def unregisterBuffer_def free_run Let_def
      split: owner.split)





text \<open>
  Unflattening frees what the object had, except where it finds the numbers too large: then the
  handle is overwritten, and an owner's buffer is dropped without being freed.
\<close>

definition small_counts :: "s32 list \<Rightarrow> bool" where
  "small_counts buf \<longleftrightarrow> length buf < 10 \<or> buf ! 8 < 4096 \<and> buf ! 9 < 4096 - 10"

definition dropped :: "nat set \<Rightarrow> nat \<Rightarrow> s32 list \<Rightarrow> u32 \<Rightarrow> 'a gworld_scheme \<Rightarrow> handle set" where
  "dropped L i buf sz s =
     (if i \<in> owners L s \<and> \<not> sz < 8 * 4 \<and> buf ! 0 = GBFR \<and> \<not> small_counts buf then {gb_handle (gbufs s i)} else {})"




section \<open>Every sequence of calls\<close>

datatype gb_event =
    GbEmpty nat | GbSized nat u32 u32 s32 s32 | GbHandle nat u32 u32 s32 s32 u32 handle bool | GbWrap nat nat bool
  | GbDestroy nat | GbReallocate nat u32 u32 s32 s32 | GbUnflatten nat "s32 list" u32 "s32 list" u32
  | GbLock nat s32 rect | GbLockYCbCr nat s32 rect | GbUnlock nat
  | GbLockAsync nat s32 rect int | GbLockAsyncYCbCr nat s32 rect int | GbUnlockAsync nat

text \<open>Objects are constructed before they are used, and used while they live.\<close>

fun gb_guard :: "gb_event \<Rightarrow> 'a gworld_scheme \<Rightarrow> bool" where
  "gb_guard (GbEmpty i) s = (i \<notin> glive s)"
| "gb_guard (GbSized i w h f u) s = (i \<notin> glive s)"
| "gb_guard (GbHandle i w h f u st k keep) s = (i \<notin> glive s)"
| "gb_guard (GbWrap i j keep) s = (i \<notin> glive s \<and> j \<in> glive s)"
| "gb_guard (GbUnflatten i buf sz fds n) s = (i \<in> glive s)"
| "gb_guard (GbDestroy i) s = (i \<in> glive s)"
| "gb_guard (GbReallocate i w h f u) s = (i \<in> glive s)"
| "gb_guard (GbLock i u r) s = (i \<in> glive s)"
| "gb_guard (GbLockYCbCr i u r) s = (i \<in> glive s)"
| "gb_guard (GbUnlock i) s = (i \<in> glive s)"
| "gb_guard (GbLockAsync i u r fd) s = (i \<in> glive s)"
| "gb_guard (GbLockAsyncYCbCr i u r fd) s = (i \<in> glive s)"
| "gb_guard (GbUnlockAsync i) s = (i \<in> glive s)"

definition enlist :: "nat \<Rightarrow> 'a gworld_scheme \<Rightarrow> 'a gworld_scheme" where
  "enlist i s = s\<lparr>glive := insert i (glive s)\<rparr>"

fun gb_step :: "'y gralloc \<Rightarrow> s32 \<Rightarrow> gb_event \<Rightarrow> 'a gworld_scheme \<Rightarrow> 'a gworld_scheme" where
  "gb_step G pid (GbEmpty i) s = enlist i (exec (new_empty pid i) s)"
| "gb_step G pid (GbSized i w h f u) s = enlist i (exec (new_sized G pid i w h f u) s)"
| "gb_step G pid (GbHandle i w h f u st k keep) s = enlist i (exec (new_from_handle pid i w h f u st k keep) s)"
| "gb_step G pid (GbWrap i j keep) s = enlist i (exec (new_wrapping pid i j keep) s)"
| "gb_step G pid (GbDestroy i) s = (exec (destroy G i) s)\<lparr>glive := glive s - {i}\<rparr>"
| "gb_step G pid (GbReallocate i w h f u) s = exec (reallocate G i w h f u) s"
| "gb_step G pid (GbUnflatten i buf sz fds n) s = exec (unflatten G i buf sz fds n) s"
| "gb_step G pid (GbLock i u r) s = exec (lock_rect G i u r) s"
| "gb_step G pid (GbLockYCbCr i u r) s = exec (lockYCbCr_rect G i u r) s"
| "gb_step G pid (GbUnlock i) s = exec (unlock_buffer G i) s"
| "gb_step G pid (GbLockAsync i u r fd) s = exec (lockAsync_rect G i u r fd) s"
| "gb_step G pid (GbLockAsyncYCbCr i u r fd) s = exec (lockAsyncYCbCr_rect G i u r fd) s"
| "gb_step G pid (GbUnlockAsync i) s = exec (unlockAsync_buffer G i) s"

definition gb_init :: "gworld \<Rightarrow> bool" where
  "gb_init s \<longleftrightarrow> ghist s = [] \<and> sAllocList s = [] \<and> glive s = {}"




lemma glive_calls [simp]:
  "glive (exec (reallocate G i w h f u) s) = glive s" "glive (exec (unflatten G i buf sz fds n) s) = glive s"
  "glive (exec (new_sized G pid i w h f u) s) = glive s"
proof -
  have init: "glive (exec (initSize G i w h f u) t) = glive t" for t :: "'a gworld_scheme"
    by (simp add: exec_def initSize_def alloc_run Let_def split: prod.split)
  have free: "glive (exec (free_buffer G k) t) = glive t" for k and t :: "'a gworld_scheme"
    by (simp add: exec_def free_run Let_def)
  show "glive (exec (reallocate G i w h f u) s) = glive s"
    by (simp add: reallocate_def exec_bind init free)
  show "glive (exec (unflatten G i buf sz fds n) s) = glive s"
    by (simp add: unflatten_def reading_def exec_bind adopt_frame free_handle_frame Let_def)
  show "glive (exec (new_sized G pid i w h f u) s) = glive s"
    by (simp add: new_sized_def getUniqueId_def exec_bind init)
qed



text \<open>
  Beside the state, \<open>gb_track\<close> keeps the handles that the calls so far have dropped, each with
  the object as it was then. It does not change what the calls do: \<open>gb_step\<close> is the state's part.
\<close>

type_synonym drops = "handle \<rightharpoonup> gbuf"

fun gb_drops :: "gb_event \<Rightarrow> 'a gworld_scheme \<Rightarrow> drops" where
  "gb_drops (GbUnflatten i buf sz fds n) s = (\<lambda>k. if k \<in> dropped (glive s) i buf sz s then Some (gbufs s i) else None)"
| "gb_drops _ s = Map.empty"

definition gb_track :: "'y gralloc \<Rightarrow> s32 \<Rightarrow> gb_event \<Rightarrow> drops \<times> 'a gworld_scheme \<Rightarrow> drops \<times> 'a gworld_scheme" where
  "gb_track G pid e w = (fst w ++ gb_drops e (snd w), gb_step G pid e (snd w))"

definition gb_ok :: "gb_event \<Rightarrow> drops \<times> 'a gworld_scheme \<Rightarrow> bool" where
  "gb_ok e w = gb_guard e (snd w)"

definition gb_begin :: "drops \<times> gworld \<Rightarrow> bool" where
  "gb_begin w \<longleftrightarrow> fst w = Map.empty \<and> gb_init (snd w)"


lemma dom_drops [simp]: "dom (gb_drops (GbUnflatten i buf sz fds n) s) = dropped (glive s) i buf sz s"
  by (auto simp: dom_def)




text \<open>Each state the calls lead to is one that the tracked calls lead to, with some set of dropped handles.\<close>

lemma reach_tracked:
  assumes "reach gb_guard (gb_step G pid) gb_init s"
  shows "\<exists>D. reach gb_ok (gb_track G pid) gb_begin (D, s)"
  using assms
proof (induction rule: reach.induct)
  case (reach_init s)
  then have "reach gb_ok (gb_track G pid) gb_begin (Map.empty, s)" by (intro reach.reach_init) (simp add: gb_begin_def)
  then show ?case by blast
next
  case (reach_step s e)
  then obtain D where "reach gb_ok (gb_track G pid) gb_begin (D, s)" by blast
  then have "reach gb_ok (gb_track G pid) gb_begin (gb_track G pid e (D, s))"
    by (rule reach.reach_step) (simp add: gb_ok_def reach_step(2))
  moreover have "gb_track G pid e (D, s) = (D ++ gb_drops e s, gb_step G pid e s)" by (simp add: gb_track_def)
  ultimately show ?case by auto
qed

section \<open>What the properties need\<close>



lemma demo_rect_laws: "rect_laws (demo_gralloc v)"
  by (simp add: rect_laws_def demo_gralloc_def)

definition world_start :: gworld where
  "world_start = \<lparr>ghist = [], sAllocList = [], natives = Map.empty,
     gbufs = (\<lambda>_. blank ownNone 0), glive = {}, nextId = 0\<rparr>"

text \<open>What a lock of the area \<open>r\<close> may do.\<close>

definition confined :: "gbuf \<Rightarrow> rect \<Rightarrow> gfx_history \<Rightarrow> gfx_history \<Rightarrow> int \<Rightarrow> bool" where
  "confined b r before after status \<longleftrightarrow>
     (\<exists>evs. after = evs @ before \<and>
        (if outside b r then evs = [] \<and> status = BAD_VALUE else list_all (inside b) (locked_areas evs)))"

lemmas lock_defs = lock_rect_def lockYCbCr_rect_def lockAsync_rect_def lockAsyncYCbCr_rect_def mapper_lock_def
  mapper_lockYCbCr_def mapper_lockAsync_def mapper_lockAsyncYCbCr_def sync_wait_close_def

lemma locks_confined:
  assumes "\<not> outside (gbufs s i) r \<longrightarrow> inside (gbufs s i) (area_of G r)"
  shows "confined (gbufs s i) r (ghist s) (ghist (exec (lock_rect G i u r) s)) (fst (result (lock_rect G i u r) s))"
    "confined (gbufs s i) r (ghist s) (ghist (exec (lockYCbCr_rect G i u r) s)) (fst (result (lockYCbCr_rect G i u r) s))"
    "confined (gbufs s i) r (ghist s) (ghist (exec (lockAsync_rect G i u r fd) s)) (fst (result (lockAsync_rect G i u r fd) s))"
    "confined (gbufs s i) r (ghist s) (ghist (exec (lockAsyncYCbCr_rect G i u r fd) s)) (fst (result (lockAsyncYCbCr_rect G i u r fd) s))"
  using assms
  by (auto simp: confined_def exec_def result_def lock_defs Let_def split: prod.splits option.splits)

lemma whole_inside:
  assumes "rect_laws G" "0 \<le> sint (gb_width b)" "0 \<le> sint (gb_height b)"
  shows "\<not> outside b (whole G b)" "area_of G (whole G b) = (0, 0, gb_width b, gb_height b)"
  using assms by (simp_all add: rect_laws_def whole_def outside_def area_of_def)

lemma take_ids_distinct:
  assumes "n \<le> 2 ^ 32"
  shows "distinct (take_ids pid n s)"
proof -
  have "inj_on (\<lambda>j. push_bit 32 (scast pid) OR ucast (nextId s + word_of_nat j) :: u64) {..<n}"
  proof (rule inj_onI)
    fix x y assume xy: "x \<in> {..<n}" "y \<in> {..<n}"
      "push_bit 32 (scast pid) OR ucast (nextId s + word_of_nat x) = (push_bit 32 (scast pid) OR ucast (nextId s + word_of_nat y) :: u64)"
    from arg_cong [OF xy(3), of "ucast :: u64 \<Rightarrow> u32"]
    have "nextId s + word_of_nat x = nextId s + (word_of_nat y :: u32)" by (simp only: id_halves(1))
    then have "(word_of_nat x :: u32) = word_of_nat y" by simp
    moreover have "x < 2 ^ 32" "y < 2 ^ 32" using xy(1,2) assms by auto
    ultimately show "x = y" by (simp add: word_of_nat_eq_iff take_bit_nat_eq_self)
  qed
  then show ?thesis by (simp add: take_ids_map distinct_map atLeast0LessThan)
qed

lemma take_ids_pid: "x \<in> set (take_ids pid n s) \<Longrightarrow> ucast (drop_bit 32 x) = pid"
  unfolding take_ids_map by (auto simp only: set_map id_halves(2))

lemma small_unat: "n < 4096 \<Longrightarrow> unat (word_of_nat n :: u32) = n"
  by (simp add: unat_of_nat take_bit_nat_eq_self)

lemma small_word_less: "n < 4096 \<Longrightarrow> k \<le> 4096 \<Longrightarrow> (word_of_nat n < (word_of_nat k :: u32)) = (n < k)"
  by (simp add: word_less_nat_alt small_unat unat_of_nat take_bit_nat_eq_self)

lemma adopt_run:
  assumes "gr_handle_create G (ghist s) nfds nints \<noteq> 0" "\<And>hs k. gr_register G hs k = NO_ERROR" "nfds \<noteq> 0 \<or> nints \<noteq> 0"
  shows "result (adopt G i buf nfds nints fds) s = NO_ERROR"
    "gbufs (exec (adopt G i buf nfds nints fds) s) i = (gbufs s i)\<lparr>gb_width := buf ! 1, gb_height := buf ! 2, gb_stride := buf ! 3,
       gb_format := buf ! 4, gb_usage := buf ! 5, gb_handle := gr_handle_create G (ghist s) nfds nints,
       gb_id := push_bit 32 (scast (buf ! 6)) OR ucast (buf ! 7), gb_owner := ownHandle\<rparr>"
    "natives (exec (adopt G i buf nfds nints fds) s) (gr_handle_create G (ghist s) nfds nints) =
       Some \<lparr>n_fds = take (unat nfds) fds, n_ints = take (unat nints) (drop 10 buf)\<rparr>"
  using assms by (simp_all add: adopt_def exec_def result_def registerBuffer_def Let_def)

text \<open>An image of a buffer, in the order \<^verbatim>\<open>flatten\<close> writes it.\<close>

definition image_of :: "gbuf \<Rightarrow> native \<Rightarrow> s32 list" where
  "image_of b n = [GBFR, gb_width b, gb_height b, gb_stride b, gb_format b, gb_usage b,
     ucast (drop_bit 32 (gb_id b)), ucast (gb_id b AND 0xFFFFFFFF),
     word_of_nat (length (n_fds n)), word_of_nat (length (n_ints n))] @ n_ints n"

definition small_native :: "native \<Rightarrow> bool" where
  "small_native n \<longleftrightarrow> length (n_fds n) < 4096 \<and> length (n_ints n) < 4086 \<and> (n_fds n \<noteq> [] \<or> n_ints n \<noteq> [])"

lemma flatten_image:
  assumes "gb_handle (gbufs s i) \<noteq> 0" "natives s (gb_handle (gbufs s i)) = Some n"
    "getFlattenedSize s i \<le> sz" "getFdCount s i \<le> cnt"
  shows "fo_status (flatten s i sz cnt) = NO_ERROR" "fo_ints (flatten s i sz cnt) = image_of (gbufs s i) n"
    "fo_fds (flatten s i sz cnt) = n_fds n" "fo_advance (flatten s i sz cnt) = unat (getFlattenedSize s i)"
proof -
  have "\<not> sz < getFlattenedSize s i" "\<not> cnt < getFdCount s i" using assms(3,4) by (simp_all only: not_less)
  with assms(1,2) show "fo_status (flatten s i sz cnt) = NO_ERROR" "fo_ints (flatten s i sz cnt) = image_of (gbufs s i) n"
    "fo_fds (flatten s i sz cnt) = n_fds n" "fo_advance (flatten s i sz cnt) = unat (getFlattenedSize s i)"
    by (simp_all add: flatten_def Let_def image_of_def numFds_def numInts_def)
qed

lemma unflatten_image:
  assumes n: "small_native n" and b: "buf = image_of b n" "fds = n_fds n"
    and sz: "sz = (10 + word_of_nat (length (n_ints n))) * 4" "cnt = word_of_nat (length (n_fds n))"
    and t: "t = (if gb_handle (gbufs s i) \<noteq> 0 then exec (free_handle G i) s else s)"
  shows "run_state (unflatten G i buf sz fds cnt) s =
    (if result (adopt G i buf (buf ! 8) (buf ! 9) fds) t \<noteq> NO_ERROR
     then (Inr (result (adopt G i buf (buf ! 8) (buf ! 9) fds) t, 0, sz, 0, cnt), exec (adopt G i buf (buf ! 8) (buf ! 9) fds) t)
     else (Inr (NO_ERROR, unat sz, 0, length fds, 0), exec (adopt G i buf (buf ! 8) (buf ! 9) fds) t))"
proof -
  have l: "length (n_fds n) < 4096" "length (n_ints n) < 4096" "length (n_ints n) < 4086"
    using n by (auto simp: small_native_def)
  have u: "unat (word_of_nat (length (n_fds n)) :: u32) = length (n_fds n)" "unat (word_of_nat (length (n_ints n)) :: u32) = length (n_ints n)"
    using l by (simp_all add: small_unat)
  have c: "\<not> 4096 \<le> (word_of_nat (length (n_fds n)) :: u32)" "\<not> 4086 \<le> (word_of_nat (length (n_ints n)) :: u32)"
    using small_word_less [OF l(1), of 4096] small_word_less [OF l(2), of 4086] l by simp_all
  have "unat sz = (10 + length (n_ints n)) * 4"
    unfolding sz using l u by (simp add: unat_word_ariths unat_of_nat)
  then have s: "\<not> sz < 32" by (simp add: word_less_nat_alt)
  have nth: "buf ! 0 = GBFR" "buf ! 8 = word_of_nat (length (n_fds n))" "buf ! 9 = word_of_nat (length (n_ints n))"
    "length buf = 10 + length (n_ints n)"
    by (simp_all add: b image_of_def)
  show ?thesis
    using s c u by (simp add: unflatten_def reading_def nth b(2) sz t exec_def result_def Let_def split: prod.split)
qed

section \<open>Properties\<close>



text \<open>
  C32. For an area whose edges are in order (left not right of right, top not below bottom) and a
  buffer whose width and height are not negative as signed numbers, a lock never reaches outside
  the buffer: each of the four kinds either refuses the area with \<^verbatim>\<open>BAD_VALUE\<close> and does
  nothing, or every area it has gralloc lock lies within the width and height of the buffer. The
  plain lock without an area locks the whole buffer. An area with edges out of order is not covered:
  see \<open>inverted_area_passes\<close>.
\<close>

theorem lock_stays_inside:
  assumes "rect_laws G" "sint (r_left r) \<le> sint (r_right r)" "sint (r_top r) \<le> sint (r_bottom r)"
    and "b = gbufs s i" "0 \<le> sint (gb_width b)" "0 \<le> sint (gb_height b)"
  shows "confined b r (ghist s) (ghist (exec (lock_rect G i u r) s)) (fst (result (lock_rect G i u r) s)) \<and>
    confined b r (ghist s) (ghist (exec (lockYCbCr_rect G i u r) s)) (fst (result (lockYCbCr_rect G i u r) s)) \<and>
    confined b r (ghist s) (ghist (exec (lockAsync_rect G i u r fd) s)) (fst (result (lockAsync_rect G i u r fd) s)) \<and>
    confined b r (ghist s) (ghist (exec (lockAsyncYCbCr_rect G i u r fd) s)) (fst (result (lockAsyncYCbCr_rect G i u r fd) s)) \<and>
    locked_areas (ghist (exec (lock_whole G i u) s)) = (0, 0, gb_width b, gb_height b) # locked_areas (ghist s)"
proof -
  have "\<not> outside (gbufs s i) r \<longrightarrow> inside (gbufs s i) (area_of G r)"
    using area_inside [OF assms(1) _ assms(2,3)] by blast
  note c = locks_confined [OF this]
  have "locked_areas (ghist (exec (lock_whole G i u) s)) = (0, 0, gb_width b, gb_height b) # locked_areas (ghist s)"
    using whole_inside [OF assms(1,5,6)] assms(4)
    by (simp add: lock_whole_def lock_rect_def mapper_lock_def exec_def Let_def split: prod.split)
  then show ?thesis by (simp only: assms(4) c simp_thms)
qed

theorem lock_stays_inside_witness:
  "let s = world_start\<lparr>gbufs := \<lambda>_. (blank ownData 0)\<lparr>gb_width := 8, gb_height := 8, gb_handle := 0x1000\<rparr>\<rparr>;
       r = \<lparr>r_left = 2, r_top = 2, r_right = 6, r_bottom = 8\<rparr>
   in \<not> outside (gbufs s 3) r \<and>
     confined (gbufs s 3) r [] (ghist (exec (lock_rect (demo_gralloc 2) 3 1 r) s)) (fst (result (lock_rect (demo_gralloc 2) 3 1 r) s))"
  using lock_stays_inside [OF demo_rect_laws, of "\<lparr>r_left = 2, r_top = 2, r_right = 6, r_bottom = 8\<rparr>"
      "(blank ownData 0)\<lparr>gb_width := 8, gb_height := 8, gb_handle := 0x1000\<rparr>"
      "world_start\<lparr>gbufs := \<lambda>_. (blank ownData 0)\<lparr>gb_width := 8, gb_height := 8, gb_handle := 0x1000\<rparr>\<rparr>" 3 2 1]
  by (simp add: outside_def world_start_def)

text \<open>
  Identifiers are unique: the first \<open>2 ^ 32\<close> objects of a process have different
  identifiers, and they differ from those of any process with another number.
\<close>

theorem ids_unique:
  assumes "n \<le> 2 ^ 32" "m \<le> 2 ^ 32" "pid \<noteq> pid'"
  shows "distinct (take_ids pid n s @ take_ids pid' m t)"
proof -
  have "set (take_ids pid n s) \<inter> set (take_ids pid' m t) = {}"
    using assms(3) by (auto dest: take_ids_pid)
  with assms(1,2) show ?thesis by (simp add: take_ids_distinct)
qed

theorem ids_unique_witness:
  "distinct (take_ids 7 3 world_start @ take_ids 8 2 world_start)"
  by (rule ids_unique) simp_all

text \<open>
  C16. Sending a buffer to another process gives it the same buffer: for a buffer that has a
  handle with at least one descriptor or integer and with fewer than 4096 descriptors and 4086
  integers, and where creating and registering the new handle succeed, what
  \<^verbatim>\<open>flatten\<close> writes, \<^verbatim>\<open>unflatten\<close> reads as the same sizes, format, usage
  and identifier and a handle with the same descriptors and integers, in an object that owns
  that handle. It uses up all the bytes and descriptors it was given. Without a descriptor and
  integer the sizes are lost: see \<open>empty_handle_loses_sizes\<close>.
\<close>

theorem flat_roundtrip:
  assumes "gb_handle (gbufs s i) \<noteq> 0" "natives s (gb_handle (gbufs s i)) = Some n" "small_native n"
    and "\<And>hs a b. gr_handle_create G hs a b \<noteq> 0" "\<And>hs k. gr_register G hs k = NO_ERROR"
    and "out = flatten s i (getFlattenedSize s i) (getFdCount s i)"
    and "run_state (unflatten G j (fo_ints out) (getFlattenedSize s i) (fo_fds out) (getFdCount s i)) t = (r, t')"
  shows "r = Inr (NO_ERROR, unat (getFlattenedSize s i), 0, length (n_fds n), 0) \<and>
    (let a = gbufs s i; b = gbufs t' j in
       gb_width b = gb_width a \<and> gb_height b = gb_height a \<and> gb_stride b = gb_stride a \<and>
       gb_format b = gb_format a \<and> gb_usage b = gb_usage a \<and> gb_id b = gb_id a \<and> gb_owner b = ownHandle \<and>
       natives t' (gb_handle b) = Some n)"
proof -
  have out: "fo_ints out = image_of (gbufs s i) n" "fo_fds out = n_fds n"
    using flatten_image [OF assms(1,2) order_refl order_refl] by (simp_all add: assms(6))
  have sz: "getFlattenedSize s i = (10 + word_of_nat (length (n_ints n))) * 4"
    "getFdCount s i = word_of_nat (length (n_fds n))"
    using assms(1,2) by (simp_all add: getFlattenedSize_def getFdCount_def numInts_def numFds_def)
  have l: "length (n_fds n) < 4096" "length (n_ints n) < 4096" using assms(3) by (simp_all add: small_native_def)
  have nz: "(word_of_nat (length (n_fds n)) :: u32) \<noteq> 0 \<or> (word_of_nat (length (n_ints n)) :: u32) \<noteq> 0"
    using assms(3) small_unat [OF l(1)] small_unat [OF l(2)] by (auto simp: small_native_def unat_eq_0)
  have nth: "image_of b n ! 1 = gb_width b" "image_of b n ! Suc 0 = gb_width b" "image_of b n ! 2 = gb_height b" "image_of b n ! 3 = gb_stride b"
    "image_of b n ! 4 = gb_format b" "image_of b n ! 5 = gb_usage b" "image_of b n ! 6 = ucast (drop_bit 32 (gb_id b))"
    "image_of b n ! 7 = ucast (gb_id b AND 0xFFFFFFFF)" "image_of b n ! 8 = word_of_nat (length (n_fds n))"
    "image_of b n ! 9 = word_of_nat (length (n_ints n))" "drop 10 (image_of b n) = n_ints n" for b
    by (simp_all add: image_of_def)
  note run = unflatten_image [OF assms(3) refl refl sz refl, where s = t and i = j and G = G]
  note ad = adopt_run [OF assms(4,5) nz]
  show ?thesis
    using assms(7) unfolding out run nth
    by (auto simp: ad nth Let_def halves_id small_unat l)
qed

theorem flat_roundtrip_witness:
  "let n = \<lparr>n_fds = [5], n_ints = [6, 7]\<rparr>;
       s = world_start\<lparr>natives := [0x1000 \<mapsto> n], gbufs := \<lambda>_. (blank ownData 9)\<lparr>gb_width := 8, gb_height := 4, gb_handle := 0x1000\<rparr>\<rparr>;
       out = flatten s 0 (getFlattenedSize s 0) (getFdCount s 0);
       t' = snd (run_state (unflatten (demo_gralloc 2) 1 (fo_ints out) (getFlattenedSize s 0) (fo_fds out) (getFdCount s 0)) world_start)
   in gb_width (gbufs t' 1) = 8 \<and> gb_id (gbufs t' 1) = 9 \<and> natives t' (gb_handle (gbufs t' 1)) = Some n"
proof -
  define n where "n = \<lparr>n_fds = [5 :: s32], n_ints = [6, 7]\<rparr>"
  define s where "s = world_start\<lparr>natives := [0x1000 \<mapsto> n],
    gbufs := \<lambda>_. (blank ownData 9)\<lparr>gb_width := 8, gb_height := 4, gb_handle := 0x1000\<rparr>\<rparr>"
  define out where "out = flatten s 0 (getFlattenedSize s 0) (getFdCount s 0)"
  obtain r t' where run: "run_state (unflatten (demo_gralloc 2) 1 (fo_ints out) (getFlattenedSize s 0) (fo_fds out) (getFdCount s 0)) world_start = (r, t')"
    by (metis surj_pair)
  have s: "gbufs s 0 = (blank ownData 9)\<lparr>gb_width := 8, gb_height := 4, gb_handle := 0x1000\<rparr>" "natives s 0x1000 = Some n"
    by (simp_all add: s_def)
  have "small_native n" by (simp add: small_native_def n_def)
  then have "gb_width (gbufs t' 1) = gb_width (gbufs s 0) \<and> gb_id (gbufs t' 1) = gb_id (gbufs s 0) \<and>
      natives t' (gb_handle (gbufs t' 1)) = Some n"
    using flat_roundtrip [OF _ _ _ _ _ out_def run, of n] s by (simp add: demo_gralloc_def Let_def)
  with run s show ?thesis
    unfolding Let_def n_def [symmetric] s_def [symmetric] out_def [symmetric] by (simp add: blank_def)
qed

text \<open>
  A buffer with no descriptor and no integer in its handle, or with no handle, does not survive
  the trip: the receiver gets the identifier, no handle, and all sizes 0.
\<close>

lemma empty_handle_loses_sizes:
  assumes "natives s (gb_handle (gbufs s i)) = Some \<lparr>n_fds = [], n_ints = []\<rparr> \<or> gb_handle (gbufs s i) = 0"
    and "gb_handle (gbufs t j) = 0"
    and "out = flatten s i 40 0"
  shows "result (unflatten G j (fo_ints out) 40 (fo_fds out) 0) t = Inr (NO_ERROR, 40, 0, 0, 0) \<and>
    (let b = gbufs (exec (unflatten G j (fo_ints out) 40 (fo_fds out) 0) t) j in
       gb_width b = 0 \<and> gb_height b = 0 \<and> gb_stride b = 0 \<and> gb_format b = 0 \<and> gb_usage b = 0 \<and> gb_handle b = 0 \<and>
       gb_id b = gb_id (gbufs s i))"
proof -
  let ?b = "gbufs s i"
  have "getFlattenedSize s i = 40" "getFdCount s i = 0"
    using assms(1) by (auto simp: getFlattenedSize_def getFdCount_def numInts_def numFds_def)
  then have out: "fo_ints out = [GBFR, gb_width ?b, gb_height ?b, gb_stride ?b, gb_format ?b, gb_usage ?b,
      ucast (drop_bit 32 (gb_id ?b)), ucast (gb_id ?b AND 0xFFFFFFFF), 0, 0]" "fo_fds out = []"
    using assms(1) by (auto simp: assms(3) flatten_def Let_def numFds_def numInts_def)
  have r: "run_state (adopt G j (fo_ints out) 0 0 []) t = (NO_ERROR, t\<lparr>gbufs := (gbufs t)(j := (clear_fields (gbufs t j))\<lparr>
      gb_id := gb_id ?b, gb_owner := ownHandle\<rparr>)\<rparr>)"
    by (simp add: adopt_def out clear_fields_def halves_id)
  have "run_state (unflatten G j (fo_ints out) 40 (fo_fds out) 0) t = (Inr (NO_ERROR, 40, 0, 0, 0), snd (run_state (adopt G j (fo_ints out) 0 0 []) t))"
    using assms(2) r by (simp add: unflatten_def reading_def out Let_def)
  then show ?thesis by (simp add: exec_def result_def r clear_fields_def Let_def)
qed

text \<open>
  C33. Unflattening an image that is at least 40 bytes long, however its contents were forged,
  reads nothing outside the bytes and descriptors the caller says there are.
\<close>

theorem unflatten_in_bounds:
  assumes "40 \<le> sz" "unat sz \<le> 4 * length buf" "unat cnt \<le> length fds"
  shows "\<exists>r. result (unflatten G i buf sz fds cnt) s = Inr r"
proof -
  have "40 \<le> unat sz" using assms(1) by (simp add: word_le_nat_alt)
  with assms(2) have l: "10 \<le> length buf" by simp
  have n: "\<not> length fds < unat (buf ! 8)" if "\<not> cnt < buf ! 8"
    using that assms(3) by (simp add: word_less_nat_alt)
  have m: "\<not> length buf < 10 + unat (buf ! 9)" if "\<not> sz < (10 + buf ! 9) * 4" "\<not> 4086 \<le> buf ! 9"
  proof -
    have "unat (buf ! 9) < 4086" using that(2) by (simp add: word_le_nat_alt)
    then have "unat ((10 + buf ! 9) * 4) = (10 + unat (buf ! 9)) * 4" by (simp add: unat_word_ariths)
    with that(1) assms(2) show ?thesis by (simp add: word_less_nat_alt)
  qed
  have i: "0 < length buf" "8 < length buf" "9 < length buf" using l by auto
  show ?thesis
    using i n m by (auto simp: unflatten_def reading_def result_bind Let_def)
qed

theorem unflatten_in_bounds_witness:
  "\<exists>r. result (unflatten (demo_gralloc 2) 1 [GBFR, 1, 1, 1, 1, 1, 1, 1, 4095, 4085] 40 [] 0) world_start = Inr r"
  by (rule unflatten_in_bounds) simp_all

text \<open>
  The check before the header is too weak by two integers: an image of exactly 32 bytes
  that starts with the right magic number makes \<^verbatim>\<open>unflatten\<close> read behind its end,
  for every buffer object.
\<close>

theorem unflatten_header_overread:
  assumes "length rest = 7"
  shows "result (unflatten G i (GBFR # rest) 32 fds cnt) s = Inl 8"
  using assms by (simp add: unflatten_def reading_def Let_def)

theorem unflatten_header_overread_witness:
  "result (unflatten (demo_gralloc 2) 1 (GBFR # [1, 1, 1, 1, 1, 1, 1]) 32 [] 0) world_start = Inl 8"
  by (rule unflatten_header_overread) simp

text \<open>
  The buffer pointer is moved too far: after flattening, it has moved by four times the
  integers that were written, because the number of bytes is added to a pointer to integers.
\<close>

theorem flatten_advances_too_far:
  assumes "gb_handle (gbufs s i) \<noteq> 0" "natives s (gb_handle (gbufs s i)) = Some n" "small_native n"
    and "getFlattenedSize s i \<le> sz" "getFdCount s i \<le> cnt"
  shows "fo_advance (flatten s i sz cnt) = 4 * length (fo_ints (flatten s i sz cnt))"
proof -
  have "length (n_ints n) < 4096" using assms(3) by (simp add: small_native_def)
  then have "unat (getFlattenedSize s i) = 4 * (10 + length (n_ints n))"
    using assms(1,2) small_unat by (simp add: getFlattenedSize_def numInts_def unat_word_ariths)
  then show ?thesis
    using flatten_image [OF assms(1,2,4,5)] by (simp add: image_of_def)
qed

theorem flatten_advances_too_far_witness:
  "let s = world_start\<lparr>natives := [0x1000 \<mapsto> \<lparr>n_fds = [5], n_ints = [6, 7]\<rparr>], gbufs := \<lambda>_. (blank ownData 9)\<lparr>gb_handle := 0x1000\<rparr>\<rparr>
   in fo_advance (flatten s 0 1000 1) = 4 * length (fo_ints (flatten s 0 1000 1))"
  unfolding Let_def
  by (rule flatten_advances_too_far [where n = "\<lparr>n_fds = [5], n_ints = [6, 7]\<rparr>"])
    (simp_all add: small_native_def getFlattenedSize_def getFdCount_def numFds_def numInts_def)

text \<open>
  The test the locks make does not compare the edges of an area with each other: an area whose
  right edge lies left of its left edge passes, and gralloc is asked for a negative width.
\<close>

lemma inverted_area_passes:
  "let b = (blank ownData 0)\<lparr>gb_width := 8, gb_height := 8\<rparr>; r = \<lparr>r_left = 6, r_top = 0, r_right = 2, r_bottom = 8\<rparr>
   in \<not> outside b r \<and> area_of (demo_gralloc 2) r = (6, 0, - 4, 8)"
  by (simp add: outside_def area_of_def demo_gralloc_def)

end
