(* ===== verification/BufferDump.thy ===== *)
theory BufferDump
  imports GraphicBuffer
begin

text \<open>
  What the dump of \<^verbatim>\<open>shim/ui/GraphicBufferAllocator.cpp\<close> says of the objects of
  \<^verbatim>\<open>shim/ui/GraphicBuffer.cpp\<close>: the two classes together.
\<close>

section \<open>The entry of an object\<close>

definition record_of :: "'y gralloc \<Rightarrow> gbuf \<Rightarrow> alloc_rec" where
  "record_of G b =
     (let (w, h) = (if gb_width b = 0 \<or> gb_height b = 0 then (1, 1) else (gb_width b, gb_height b))
      in \<lparr>rec_w = w, rec_h = h, rec_s = gb_stride b, rec_format = gb_format b,
          rec_usage = gb_usage b AND gr_ALLOC_MASK G, rec_size = h * gb_stride b * gr_bytesPerPixel G (gb_format b)\<rparr>)"

text \<open>Each owner and each dropped handle \<open>D\<close> has its entry, with the object's fields.\<close>

definition described :: "'y gralloc \<Rightarrow> drops \<Rightarrow> nat set \<Rightarrow> 'a gworld_scheme \<Rightarrow> bool" where
  "described G D L s \<longleftrightarrow> owned_once (dom D) L s \<and> list_inv s \<and>
     (\<forall>i \<in> owners L s. map_of (sAllocList s) (gb_handle (gbufs s i)) = Some (record_of G (gbufs s i))) \<and>
     (\<forall>k b. D k = Some b \<longrightarrow> gb_handle b = k \<and> map_of (sAllocList s) k = Some (record_of G b))"

definition same_books :: "'a gworld_scheme \<Rightarrow> 'a gworld_scheme \<Rightarrow> bool" where
  "same_books s t \<longleftrightarrow> sAllocList t = sAllocList s \<and> booked (ghist t) = booked (ghist s)"




lemma list_inv_gbufs [simp]:
  "list_inv (s\<lparr>gbufs := B\<rparr>) = list_inv s" "list_inv (s\<lparr>glive := L\<rparr>) = list_inv s"
  by (simp_all add: list_inv_def)










lemma same_books_refl [simp]: "same_books s s" "same_books s (t\<lparr>gbufs := B\<rparr>) = same_books s t"
  "same_books s (t\<lparr>glive := L\<rparr>) = same_books s t"
  by (simp_all add: same_books_def)








lemma described_glive [simp]: "described G D L (s\<lparr>glive := M\<rparr>) = described G D L s"
  by (simp add: described_def owners_def)








section \<open>Property\<close>



end
