(* ===== verification/AllocatorThreads.thy ===== *)
theory AllocatorThreads
  imports GraphicBufferAllocator
begin

text \<open>
  The allocator used by several threads. \<^verbatim>\<open>alloc\<close> and \<^verbatim>\<open>free\<close> of
  \<^verbatim>\<open>shim/ui/GraphicBufferAllocator.cpp\<close> call gralloc without the mutex and take it only
  for the change of \<^verbatim>\<open>sAllocList\<close>, so between the two halves of a call other threads run.
\<close>

section \<open>The two halves of a call\<close>

definition alloc_call ::
    "'y gralloc \<Rightarrow> u32 \<Rightarrow> u32 \<Rightarrow> s32 \<Rightarrow> s32 \<Rightarrow> handle \<Rightarrow> ('a gfx_scheme, int \<times> handle \<times> s32 \<times> alloc_rec) state" where
  "alloc_call G width0 height0 format usage0 handle0 =
     (let (width, height) = (if width0 = 0 \<or> height0 = 0 then (1, 1) else (width0, height0));
          usage = usage0 AND gr_ALLOC_MASK G
      in do {
        h \<leftarrow> gets ghist;
        (let (err, outHandle, outStride) = gr_alloc G h width height format usage;
             handle = (case outHandle of None \<Rightarrow> handle0 | Some x \<Rightarrow> x);
             stride = (case outStride of None \<Rightarrow> 0 | Some x \<Rightarrow> x)
         in do {
           gevent (GAlloc width height format usage err handle);
           State_Monad.return (err, handle, stride,
             \<lparr>rec_w = width, rec_h = height, rec_s = stride, rec_format = format, rec_usage = usage,
              rec_size = height * stride * gr_bytesPerPixel G format\<rparr>)
         })
      })"

definition list_add :: "handle \<Rightarrow> alloc_rec \<Rightarrow> ('a gfx_scheme, unit) state" where
  "list_add k r = modify (\<lambda>s. s\<lparr>sAllocList := AList.update k r (sAllocList s)\<rparr>)"

definition free_call :: "'y gralloc \<Rightarrow> handle \<Rightarrow> ('a gfx_scheme, int) state" where
  "free_call G handle = do {
     h \<leftarrow> gets ghist;
     (let err = gr_free G h handle in do { gevent (GFree handle err); State_Monad.return err })
   }"

definition list_remove :: "handle \<Rightarrow> ('a gfx_scheme, unit) state" where
  "list_remove k = modify (\<lambda>s. s\<lparr>sAllocList := AList.delete k (sAllocList s)\<rparr>)"

text \<open>One after the other, the halves are the operations.\<close>

lemma state_eqI: "(\<And>s. run_state m s = run_state n s) \<Longrightarrow> m = n"
  by (cases m; cases n) (auto simp: fun_eq_iff)

lemma alloc_call_eq:
  "run_state (alloc_call G w0 h0 f u0 k0) s =
     (let w = (if w0 = 0 \<or> h0 = 0 then 1 else w0); h = (if w0 = 0 \<or> h0 = 0 then 1 else h0); u = u0 AND gr_ALLOC_MASK G;
          r = gr_alloc G (ghist s) w h f u; err = fst r;
          k = (case fst (snd r) of None \<Rightarrow> k0 | Some x \<Rightarrow> x); st = (case snd (snd r) of None \<Rightarrow> 0 | Some x \<Rightarrow> x)
      in ((err, k, st, \<lparr>rec_w = w, rec_h = h, rec_s = st, rec_format = f, rec_usage = u,
             rec_size = h * st * gr_bytesPerPixel G f\<rparr>),
          s\<lparr>ghist := GAlloc w h f u err k # ghist s\<rparr>))"
  by (simp add: alloc_call_def Let_def split: prod.split)

lemma alloc_halves:
  "alloc G w h f u k0 = do {
     (err, k, st, r) \<leftarrow> alloc_call G w h f u k0;
     whenM (err = NO_ERROR) (list_add k r);
     State_Monad.return (err, k, st)
   }"
  by (rule state_eqI) (simp add: alloc_run alloc_call_eq list_add_def Let_def)

lemma free_halves:
  "free_buffer G k = do { err \<leftarrow> free_call G k; whenM (err = NO_ERROR) (list_remove k); State_Monad.return err }"
  by (rule state_eqI) (simp add: free_buffer_def free_call_def list_remove_def Let_def)

section \<open>Threads\<close>

datatype pending = Idle | Adding handle alloc_rec | Removing handle

record gthreads = gfx +
  pend :: "nat \<Rightarrow> pending"

text \<open>
  A step of thread \<open>t\<close>. A client frees only what it was given: a buffer that is outstanding and
  whose allocation has returned.
\<close>

inductive thread_step :: "'y gralloc \<Rightarrow> gthreads \<Rightarrow> gthreads \<Rightarrow> bool" for G where
  call_alloc: "pend s t = Idle \<Longrightarrow> run_state (alloc_call G w h f u k0) s = ((err, k, st, r), s') \<Longrightarrow>
    thread_step G s (s'\<lparr>pend := (pend s)(t := if err = NO_ERROR then Adding k r else Idle)\<rparr>)"
| add_record: "pend s t = Adding k r \<Longrightarrow>
    thread_step G s ((exec (list_add k r) s)\<lparr>pend := (pend s)(t := Idle)\<rparr>)"
| call_free: "pend s t = Idle \<Longrightarrow> k \<in> allocated (ghist s) \<Longrightarrow> (\<And>t' r. pend s t' \<noteq> Adding k r) \<Longrightarrow>
    run_state (free_call G k) s = (err, s') \<Longrightarrow>
    thread_step G s (s'\<lparr>pend := (pend s)(t := if err = NO_ERROR then Removing k else Idle)\<rparr>)"
| remove_record: "pend s t = Removing k \<Longrightarrow>
    thread_step G s ((exec (list_remove k) s)\<lparr>pend := (pend s)(t := Idle)\<rparr>)"

inductive threads_reach :: "'y gralloc \<Rightarrow> (gthreads \<Rightarrow> bool) \<Rightarrow> gthreads \<Rightarrow> bool" for G P where
  threads_start: "ghist s = [] \<Longrightarrow> sAllocList s = [] \<Longrightarrow> (\<And>t. pend s t = Idle) \<Longrightarrow> P s \<Longrightarrow> threads_reach G P s"
| threads_step: "threads_reach G P s \<Longrightarrow> thread_step G s s' \<Longrightarrow> P s' \<Longrightarrow> threads_reach G P s'"

definition settled :: "gthreads \<Rightarrow> bool" where
  "settled s \<longleftrightarrow> (\<forall>t. pend s t = Idle)"

text \<open>No handle is outstanding again while a thread that freed it has still to remove its entry.\<close>

definition no_reissue :: "gthreads \<Rightarrow> bool" where
  "no_reissue s \<longleftrightarrow> (\<forall>t k. pend s t = Removing k \<longrightarrow> k \<notin> allocated (ghist s))"

section \<open>The list under interleaving\<close>

text \<open>Which entries are about to be added or removed.\<close>

definition adds :: "(nat \<Rightarrow> pending) \<Rightarrow> handle \<Rightarrow> bool" where
  "adds f k \<longleftrightarrow> (\<exists>t r. f t = Adding k r)"

definition removes :: "(nat \<Rightarrow> pending) \<Rightarrow> handle \<Rightarrow> bool" where
  "removes f k \<longleftrightarrow> (\<exists>t. f t = Removing k)"

lemma adds_upd:
  "f t = Idle \<Longrightarrow> adds (f(t := Adding k r)) k' \<longleftrightarrow> k' = k \<or> adds f k'"
  "f t = Idle \<Longrightarrow> adds (f(t := Removing k)) k' \<longleftrightarrow> adds f k'"
  "f t = Idle \<Longrightarrow> adds (f(t := Idle)) k' \<longleftrightarrow> adds f k'"
  "f t = Removing k \<Longrightarrow> adds (f(t := Idle)) k' \<longleftrightarrow> adds f k'"
  "f t = Adding k r \<Longrightarrow> k' \<noteq> k \<Longrightarrow> adds (f(t := Idle)) k' \<longleftrightarrow> adds f k'"
  unfolding adds_def by (auto split: if_splits) (metis pending.distinct pending.inject)+

lemma removes_upd:
  "f t = Idle \<Longrightarrow> removes (f(t := Removing k)) k' \<longleftrightarrow> k' = k \<or> removes f k'"
  "f t = Idle \<Longrightarrow> removes (f(t := Adding k r)) k' \<longleftrightarrow> removes f k'"
  "f t = Idle \<Longrightarrow> removes (f(t := Idle)) k' \<longleftrightarrow> removes f k'"
  "f t = Adding k r \<Longrightarrow> removes (f(t := Idle)) k' \<longleftrightarrow> removes f k'"
  "f t = Removing k \<Longrightarrow> k' \<noteq> k \<Longrightarrow> removes (f(t := Idle)) k' \<longleftrightarrow> removes f k'"
  unfolding removes_def by (auto split: if_splits) (metis pending.distinct pending.inject)+

definition adding_booked :: "gthreads \<Rightarrow> bool" where
  "adding_booked s \<longleftrightarrow> (\<forall>t k r. pend s t = Adding k r \<longrightarrow> booked (ghist s) k = Some (rec_args r)) \<and>
     (\<forall>t t' k r r'. pend s t = Adding k r \<longrightarrow> pend s t' = Adding k r' \<longrightarrow> t = t')"

definition entries_known :: "gthreads \<Rightarrow> bool" where
  "entries_known s \<longleftrightarrow> (\<forall>k r. map_of (sAllocList s) k = Some r \<longrightarrow>
     booked (ghist s) k = Some (rec_args r) \<or> booked (ghist s) k = None \<and> removes (pend s) k \<or> adds (pend s) k)"

definition booked_listed :: "gthreads \<Rightarrow> bool" where
  "booked_listed s \<longleftrightarrow> (\<forall>k. booked (ghist s) k \<noteq> None \<longrightarrow> map_of (sAllocList s) k \<noteq> None \<or> adds (pend s) k)"

definition threads_inv :: "gthreads \<Rightarrow> bool" where
  "threads_inv s \<longleftrightarrow> distinct (map fst (sAllocList s)) \<and> entries_known s \<and> adding_booked s"

lemma alloc_call_run:
  assumes "gralloc_laws G" "run_state (alloc_call G w h f u k0) s = ((err, k, st, r), s')"
  shows "sAllocList s' = sAllocList s" "pend s' = pend s"
    "err \<noteq> NO_ERROR \<Longrightarrow> booked (ghist s') = booked (ghist s)"
    "err = NO_ERROR \<Longrightarrow> k \<notin> allocated (ghist s)"
    "err = NO_ERROR \<Longrightarrow> booked (ghist s') = (booked (ghist s))(k \<mapsto> rec_args r)"
proof -
  let ?w = "if w = 0 \<or> h = 0 then 1 else w" and ?h = "if w = 0 \<or> h = 0 then 1 else h"
  obtain e x y where g: "gr_alloc G (ghist s) ?w ?h f (u AND gr_ALLOC_MASK G) = (e, x, y)" by (metis surj_pair)
  from assms(1) g have "if e = NO_ERROR then \<exists>z. x = Some z \<and> z \<noteq> 0 \<and> z \<notin> allocated (ghist s) else x = None"
    unfolding gralloc_laws_def by blast
  with assms(2) g show "sAllocList s' = sAllocList s" "pend s' = pend s"
    "err \<noteq> NO_ERROR \<Longrightarrow> booked (ghist s') = booked (ghist s)"
    "err = NO_ERROR \<Longrightarrow> k \<notin> allocated (ghist s)"
    "err = NO_ERROR \<Longrightarrow> booked (ghist s') = (booked (ghist s))(k \<mapsto> rec_args r)"
    by (auto simp: alloc_call_def Let_def rec_args_def split: if_splits)
qed

lemma free_call_run:
  assumes "run_state (free_call G k) s = (err, s')"
  shows "sAllocList s' = sAllocList s" "pend s' = pend s"
    "booked (ghist s') = (if err = NO_ERROR then (booked (ghist s))(k := None) else booked (ghist s))"
  using assms by (auto simp: free_call_def Let_def)

lemma list_exec [simp]:
  "exec (list_add k r) s = s\<lparr>sAllocList := AList.update k r (sAllocList s)\<rparr>"
  "exec (list_remove k) s = s\<lparr>sAllocList := AList.delete k (sAllocList s)\<rparr>"
  by (simp_all add: list_add_def list_remove_def)

lemma adding_step:
  assumes "gralloc_laws G" "thread_step G s s'" "adding_booked s"
  shows "adding_booked s'"
  using assms(2,3)
proof cases
  case (call_alloc t w h f u k0 err k st r u')
  note run = alloc_call_run [OF assms(1) call_alloc(3)]
  have "pend s t' \<noteq> Adding k r'" if "err = NO_ERROR" for t' r'
    using run(4) [OF that] assms(3) unfolding adding_booked_def by blast
  with call_alloc run assms(3) show ?thesis
    by (cases "err = NO_ERROR") (auto simp: adding_booked_def)
next
  case (call_free t k err u')
  with free_call_run [OF call_free(5)] assms(3) show ?thesis
    by (auto simp: adding_booked_def)
qed (auto simp: adding_booked_def)

lemma known_step:
  assumes "gralloc_laws G" "thread_step G s s'" "adding_booked s" "entries_known s"
  shows "entries_known s'"
  using assms(2)
proof cases
  case (call_alloc t w h f u k0 err k st r u')
  with assms(4) alloc_call_run [OF assms(1) call_alloc(3)] show ?thesis
    by (cases "err = NO_ERROR") (auto simp: entries_known_def adds_upd removes_upd)
next
  case (add_record t k r)
  then have "booked (ghist s) k = Some (rec_args r)" using assms(3) by (simp add: adding_booked_def)
  with add_record assms(4) show ?thesis
    by (auto simp: entries_known_def update_conv' adds_upd removes_upd)
next
  case (call_free t k err u')
  with free_call_run [OF call_free(5)] assms(4) show ?thesis
    by (cases "err = NO_ERROR") (auto simp: entries_known_def adds_upd removes_upd)
next
  case (remove_record t k)
  with assms(4) show ?thesis
    by (auto simp: entries_known_def delete_conv' adds_upd removes_upd split: if_splits)
qed

lemma threads_inv_step:
  assumes "gralloc_laws G" "thread_step G s s'" "threads_inv s"
  shows "threads_inv s'"
proof -
  have "distinct (map fst (sAllocList s'))"
    using assms(2,3) by cases (auto simp: threads_inv_def alloc_call_run [OF assms(1)] free_call_run distinct_update distinct_delete)
  with assms adding_step [OF assms(1,2)] known_step [OF assms(1,2)] show ?thesis by (simp add: threads_inv_def)
qed

lemma listed_step:
  assumes "gralloc_laws G" "thread_step G s s'" "booked_listed s" "no_reissue s"
  shows "booked_listed s'"
  using assms(2)
proof cases
  case (call_alloc t w h f u k0 err k st r u')
  with assms(3) alloc_call_run [OF assms(1) call_alloc(3)] show ?thesis
    by (cases "err = NO_ERROR") (auto simp: booked_listed_def adds_upd)
next
  case (add_record t k r)
  with assms(3) show ?thesis by (auto simp: booked_listed_def update_conv' adds_upd)
next
  case (call_free t k err u')
  with free_call_run [OF call_free(5)] assms(3) show ?thesis
    by (cases "err = NO_ERROR") (auto simp: booked_listed_def adds_upd)
next
  case (remove_record t k)
  with assms(4) have "booked (ghist s) k = None" by (auto simp: no_reissue_def)
  with remove_record assms(3) show ?thesis by (auto simp: booked_listed_def delete_conv' adds_upd)
qed

lemma threads_reach_inv:
  assumes "gralloc_laws G" "threads_reach G P s"
  shows "threads_inv s"
  using assms(2)
proof induction
  case (threads_start s)
  then show ?case by (simp add: threads_inv_def entries_known_def adding_booked_def)
next
  case (threads_step s s')
  then show ?case by (blast intro: threads_inv_step [OF assms(1)])
qed

lemma threads_reach_listed:
  assumes "gralloc_laws G" "\<And>s. P s \<Longrightarrow> no_reissue s" "threads_reach G P s"
  shows "booked_listed s \<and> P s"
  using assms(3)
proof induction
  case (threads_start s)
  then show ?case by (simp add: booked_listed_def)
next
  case (threads_step s s')
  with listed_step [OF assms(1)] assms(2) show ?case by blast
qed

section \<open>A module that gives handles out again\<close>

text \<open>It has one buffer, which can be allocated again as soon as it was freed.\<close>

definition recycling_gralloc :: "unit gralloc" where
  "recycling_gralloc = (demo_gralloc 0)\<lparr>gr_alloc :=
     \<lambda>hs w h f u. if booked hs 0x1000 = None then (0, Some 0x1000, Some w) else (- 12, None, None)\<rparr>"

lemma recycling_laws: "gralloc_laws recycling_gralloc"
  by (auto simp: gralloc_laws_def recycling_gralloc_def demo_gralloc_def split: if_splits)

definition at_rest :: gthreads where
  "at_rest = \<lparr>ghist = [], sAllocList = [], natives = Map.empty, pend = \<lambda>t. Idle\<rparr>"

definition pixel :: alloc_rec where
  "pixel = \<lparr>rec_w = 1, rec_h = 1, rec_s = 1, rec_format = 1, rec_usage = 0, rec_size = 4\<rparr>"

abbreviation got :: gfx_event where "got \<equiv> GAlloc 1 1 1 0 0 0x1000"
abbreviation gone :: gfx_event where "gone \<equiv> GFree 0x1000 0"

lemma idle_upd [simp]: "(\<lambda>t. Idle)(a := Idle) = (\<lambda>t. Idle)"
  by auto

text \<open>The steps of the runs below, each from the state before it.\<close>

lemma recycling_alloc:
  assumes "pend s t = Idle" "booked (ghist s) 0x1000 = None"
  shows "thread_step recycling_gralloc s (s\<lparr>ghist := got # ghist s, pend := (pend s)(t := Adding 0x1000 pixel)\<rparr>)"
proof -
  have "run_state (alloc_call recycling_gralloc 1 1 1 0 0) s = ((0, 0x1000, 1, pixel), s\<lparr>ghist := got # ghist s\<rparr>)"
    using assms(2) by (simp add: alloc_call_eq Let_def recycling_gralloc_def demo_gralloc_def pixel_def)
  from call_alloc [OF assms(1) this] show ?thesis by simp
qed

lemma recycling_free:
  assumes "pend s t = Idle" "booked (ghist s) 0x1000 \<noteq> None" "\<not> adds (pend s) 0x1000"
  shows "thread_step recycling_gralloc s (s\<lparr>ghist := gone # ghist s, pend := (pend s)(t := Removing 0x1000)\<rparr>)"
proof -
  have "run_state (free_call recycling_gralloc 0x1000) s = (0, s\<lparr>ghist := gone # ghist s\<rparr>)"
    by (simp add: free_call_def Let_def recycling_gralloc_def demo_gralloc_def)
  from call_free [OF assms(1) _ _ this] assms(2,3) show ?thesis by (auto simp: adds_def)
qed

lemma allocated_once:
  "threads_reach recycling_gralloc no_reissue
     \<lparr>ghist = [got], sAllocList = [(0x1000, pixel)], natives = Map.empty, pend = \<lambda>t. Idle\<rparr>"
proof -
  let ?s1 = "at_rest\<lparr>ghist := [got], pend := (\<lambda>t. Idle)(1 := Adding 0x1000 pixel)\<rparr>"
  have "threads_reach recycling_gralloc no_reissue at_rest"
    by (rule threads_start) (simp_all add: at_rest_def no_reissue_def)
  moreover have "thread_step recycling_gralloc at_rest ?s1"
    using recycling_alloc [of at_rest 1] by (simp add: at_rest_def)
  ultimately have "threads_reach recycling_gralloc no_reissue ?s1"
    by (rule threads_step) (simp add: no_reissue_def)
  moreover have "thread_step recycling_gralloc ?s1
      \<lparr>ghist = [got], sAllocList = [(0x1000, pixel)], natives = Map.empty, pend = \<lambda>t. Idle\<rparr>"
    using add_record [of ?s1 1 "0x1000" pixel] by (simp add: at_rest_def)
  ultimately show ?thesis by (rule threads_step) (simp add: no_reissue_def)
qed

section \<open>Properties\<close>

text \<open>
  C10. The list under any interleaving: whatever threads call \<^verbatim>\<open>alloc\<close> and
  \<^verbatim>\<open>free\<close> and however the halves of their calls interleave, when no call is under way the
  list holds no buffer twice and none that is not outstanding, and each with the arguments of
  its allocation; it is exact provided no handle is outstanding again while a thread that freed
  it has still to remove its entry.
\<close>

theorem list_under_threads:
  assumes "gralloc_laws G" "threads_reach G P s" "settled s"
  shows "distinct (map fst (sAllocList s)) \<and>
    (\<forall>k r. map_of (sAllocList s) k = Some r \<longrightarrow> booked (ghist s) k = Some (rec_args r)) \<and>
    ((\<forall>u. P u \<longrightarrow> no_reissue u) \<longrightarrow> map_option rec_args (map_of (sAllocList s) k) = booked (ghist s) k)"
proof -
  have none: "\<not> adds (pend s) k" "\<not> removes (pend s) k" for k
    using assms(3) by (simp_all add: settled_def adds_def removes_def)
  have inv: "threads_inv s" using assms(1,2) by (rule threads_reach_inv)
  then have known: "map_of (sAllocList s) k = Some r \<Longrightarrow> booked (ghist s) k = Some (rec_args r)" for k r
    using none by (auto simp: threads_inv_def entries_known_def)
  have "map_option rec_args (map_of (sAllocList s) k) = booked (ghist s) k" if "\<forall>u. P u \<longrightarrow> no_reissue u"
  proof (cases "map_of (sAllocList s) k")
    case None
    have "booked_listed s" using threads_reach_listed [OF assms(1) _ assms(2)] that by blast
    with None none(1) [of k] have "booked (ghist s) k = None" unfolding booked_listed_def by metis
    with None show ?thesis by simp
  qed (simp add: known)
  with inv known show ?thesis by (simp add: threads_inv_def)
qed

theorem list_under_threads_witness:
  "map_option rec_args (map_of [(0x1000, pixel)] 0x1000) = booked [got] 0x1000"
  using list_under_threads [OF recycling_laws allocated_once, of "0x1000"] by (simp add: settled_def)

text \<open>
  C40. Without that proviso an entry is lost: a module that may give a freed handle out again
  keeps its contract, and a thread that frees a buffer can remove the entry of another thread's
  new buffer, which stays outstanding and is on no list.
\<close>

theorem reissued_handle_loses_entry:
  "gralloc_laws recycling_gralloc \<and>
   (\<exists>s. threads_reach recycling_gralloc (\<lambda>s. True) s \<and> settled s \<and> 0x1000 \<in> allocated (ghist s) \<and> sAllocList s = [])"
proof -
  let ?f = "(\<lambda>t. Idle) :: nat \<Rightarrow> pending"
  let ?r = "threads_reach recycling_gralloc (\<lambda>s. True)"
  let ?s0 = "\<lparr>ghist = [got], sAllocList = [(0x1000, pixel)], natives = Map.empty, pend = ?f\<rparr>"
  let ?s1 = "?s0\<lparr>ghist := [gone, got], pend := ?f(1 := Removing 0x1000)\<rparr>"
  let ?s2 = "?s1\<lparr>ghist := [got, gone, got], pend := ?f(1 := Removing 0x1000, 2 := Adding 0x1000 pixel)\<rparr>"
  let ?s3 = "?s2\<lparr>pend := ?f(1 := Removing 0x1000)\<rparr>"
  let ?s4 = "?s3\<lparr>sAllocList := [], pend := ?f\<rparr>"
  have "?r ?s0" using allocated_once by (induction rule: threads_reach.induct) (auto intro: threads_reach.intros)
  moreover have "thread_step recycling_gralloc ?s0 ?s1" using recycling_free [of ?s0 1] by (simp add: adds_def)
  ultimately have "?r ?s1" by (rule threads_step) simp
  moreover have "thread_step recycling_gralloc ?s1 ?s2" using recycling_alloc [of ?s1 2] by simp
  ultimately have "?r ?s2" by (rule threads_step) simp
  moreover have "thread_step recycling_gralloc ?s2 ?s3"
    using add_record [of ?s2 2 "0x1000" pixel] by (simp add: fun_upd_twist)
  ultimately have "?r ?s3" by (rule threads_step) simp
  moreover have "thread_step recycling_gralloc ?s3 ?s4" using remove_record [of ?s3 1 "0x1000"] by simp
  ultimately have "?r ?s4" by (rule threads_step) simp
  then have "?r ?s4 \<and> settled ?s4 \<and> 0x1000 \<in> allocated (ghist ?s4) \<and> sAllocList ?s4 = []" by (simp add: settled_def)
  with recycling_laws show ?thesis by blast
qed

end
