(* ===== verification/ColorConvert.thy ===== *)
theory ColorConvert
  imports Prelude "HOL-Library.Signed_Division"
begin

text \<open>
  The colour converter of the video editor, \<^verbatim>\<open>libcolor/ColorConvert.cpp\<close>: between
  the NV12 frames of the codecs and planar I420, compiled without
  \<^verbatim>\<open>VIDEOEDITOR_INTEL_NV12_VERSION\<close>. The two buffers are lists of bytes; a pointer is
  its distance from the start of its buffer, and an access outside the buffer is \<open>None\<close>.
\<close>

section \<open>Memory and C integers\<close>

text \<open>An \<^verbatim>\<open>int\<close> result, which wraps on the target, and its conversion to \<^verbatim>\<open>size_t\<close>.\<close>

definition i32 :: "int \<Rightarrow> int" where
  "i32 x = signed_take_bit 31 x"

definition size_of :: "int \<Rightarrow> nat" where
  "size_of x = nat (x mod 2 ^ 32)"

definition load :: "u8 list \<Rightarrow> int \<Rightarrow> u8 option" where
  "load m p = (if 0 \<le> p \<and> p < int (length m) then Some (m ! nat p) else None)"

definition store :: "u8 list \<Rightarrow> int \<Rightarrow> u8 \<Rightarrow> u8 list option" where
  "store m p b = (if 0 \<le> p \<and> p < int (length m) then Some (m[nat p := b]) else None)"

definition memcpy :: "u8 list \<Rightarrow> int \<Rightarrow> u8 list \<Rightarrow> int \<Rightarrow> nat \<Rightarrow> u8 list option" where
  "memcpy dst p src q n =
     (if n = 0 then Some dst
      else if 0 \<le> p \<and> p + int n \<le> int (length dst) \<and> 0 \<le> q \<and> q + int n \<le> int (length src)
      then Some (take (nat p) dst @ take n (drop (nat q) src) @ drop (nat p + n) dst)
      else None)"

section \<open>The converter\<close>

record ARect =
  ar_left :: int
  ar_top :: int
  ar_right :: int
  ar_bottom :: int

definition getDecoderOutputFormat :: s32 where "getDecoderOutputFormat = 0x7FA00E00"

definition OMX_COLOR_FormatYUV420SemiPlanar :: s32 where "OMX_COLOR_FormatYUV420SemiPlanar = 21"

definition getEncoderInputFormat :: s32 where "getEncoderInputFormat = OMX_COLOR_FormatYUV420SemiPlanar"

text \<open>The loop over rows both directions use for the luma plane.\<close>

fun luma_rows :: "nat \<Rightarrow> nat \<Rightarrow> u8 list \<Rightarrow> int \<Rightarrow> int \<Rightarrow> int \<Rightarrow> int \<Rightarrow> u8 list \<Rightarrow> u8 list option" where
  "luma_rows 0 width src sstride dstride pSrc pDst dst = Some dst"
| "luma_rows (Suc n) width src sstride dstride pSrc pDst dst = do {
     dst \<leftarrow> memcpy dst pDst src pSrc width;
     luma_rows n width src sstride dstride (pSrc + sstride) (pDst + dstride) dst
   }"

text \<open>The chroma loops of the decoder side: \<open>x\<close> runs up to \<open>tmp\<close> in \<open>n\<close> steps.\<close>

fun split_row :: "nat \<Rightarrow> nat \<Rightarrow> u8 list \<Rightarrow> int \<Rightarrow> int \<Rightarrow> int \<Rightarrow> u8 list \<Rightarrow> u8 list option" where
  "split_row 0 x src pSrc_uv pDst_u pDst_v dst = Some dst"
| "split_row (Suc n) x src pSrc_uv pDst_u pDst_v dst = do {
     a \<leftarrow> load src (pSrc_uv + 2 * int x);
     dst \<leftarrow> store dst (pDst_u + int x) a;
     b \<leftarrow> load src (pSrc_uv + 2 * int x + 1);
     dst \<leftarrow> store dst (pDst_v + int x) b;
     split_row n (x + 1) src pSrc_uv pDst_u pDst_v dst
   }"

fun split_rows :: "nat \<Rightarrow> nat \<Rightarrow> u8 list \<Rightarrow> int \<Rightarrow> int \<Rightarrow> int \<Rightarrow> int \<Rightarrow> int \<Rightarrow> u8 list \<Rightarrow> u8 list option" where
  "split_rows 0 tmp src sstride dstride pSrc_uv pDst_u pDst_v dst = Some dst"
| "split_rows (Suc n) tmp src sstride dstride pSrc_uv pDst_u pDst_v dst = do {
     dst \<leftarrow> split_row tmp 0 src pSrc_uv pDst_u pDst_v dst;
     split_rows n tmp src sstride dstride (pSrc_uv + sstride) (pDst_u + dstride) (pDst_v + dstride) dst
   }"

definition convertDecoderOutputToI420 :: "u8 list \<Rightarrow> int \<Rightarrow> int \<Rightarrow> ARect \<Rightarrow> u8 list \<Rightarrow> (int \<times> u8 list) option" where
  "convertDecoderOutputToI420 srcBits srcWidth srcHeight srcRect dstBits =
     (let pSrc_y = i32 (srcWidth * ar_top srcRect + ar_left srcRect);
          pSrc_uv = pSrc_y + i32 (srcWidth * (srcHeight - ar_top srcRect sdiv 2));
          dstWidth = i32 (ar_right srcRect - ar_left srcRect + 1);
          dstHeight = i32 (ar_bottom srcRect - ar_top srcRect + 1);
          dst_y_size = size_of (i32 (dstWidth * dstHeight));
          dst_uv_stride = size_of (dstWidth sdiv 2);
          dst_uv_size = size_of (i32 (dstWidth sdiv 2 * dstHeight) sdiv 2);
          pDst_u = int dst_y_size;
          pDst_v = pDst_u + int dst_uv_size;
          tmp = size_of (i32 (dstWidth + 1) sdiv 2)
      in do {
        dst \<leftarrow> luma_rows (nat dstHeight) (size_of dstWidth) srcBits srcWidth dstWidth pSrc_y 0 dstBits;
        dst \<leftarrow> split_rows (nat (i32 (dstHeight + 1) sdiv 2)) tmp srcBits srcWidth (int dst_uv_stride) pSrc_uv pDst_u pDst_v dst;
        Some (0, dst)
      })"

text \<open>The chroma loops of the encoder side.\<close>

fun join_row :: "nat \<Rightarrow> int \<Rightarrow> int \<Rightarrow> u8 list \<Rightarrow> int \<Rightarrow> int \<Rightarrow> int \<Rightarrow> u8 list \<Rightarrow> u8 list option" where
  "join_row 0 j k src pSrc_u pSrc_v pDst_uv dst = Some dst"
| "join_row (Suc n) j k src pSrc_u pSrc_v pDst_uv dst = do {
     a \<leftarrow> load src (pSrc_u + j);
     dst \<leftarrow> store dst (pDst_uv + k) a;
     b \<leftarrow> load src (pSrc_v + j);
     dst \<leftarrow> store dst (pDst_uv + (k + 1)) b;
     join_row n (j + 1) (k + 2) src pSrc_u pSrc_v pDst_uv dst
   }"

fun join_rows :: "nat \<Rightarrow> nat \<Rightarrow> u8 list \<Rightarrow> int \<Rightarrow> int \<Rightarrow> int \<Rightarrow> int \<Rightarrow> int \<Rightarrow> u8 list \<Rightarrow> u8 list option" where
  "join_rows 0 width src sstride dstride pSrc_u pSrc_v pDst_uv dst = Some dst"
| "join_rows (Suc n) width src sstride dstride pSrc_u pSrc_v pDst_uv dst = do {
     dst \<leftarrow> join_row width 0 0 src pSrc_u pSrc_v pDst_uv dst;
     join_rows n width src sstride dstride (pSrc_u + sstride) (pSrc_v + sstride) (pDst_uv + dstride) dst
   }"

definition convertI420ToEncoderInput ::
    "u8 list \<Rightarrow> int \<Rightarrow> int \<Rightarrow> int \<Rightarrow> int \<Rightarrow> ARect \<Rightarrow> u8 list \<Rightarrow> (int \<times> u8 list) option" where
  "convertI420ToEncoderInput srcBits srcWidth srcHeight dstWidth dstHeight dstRect dstBits =
     (let pSrc_u = i32 (srcWidth * srcHeight);
          pSrc_v = pSrc_u + i32 (srcWidth sdiv 2 * (srcHeight sdiv 2));
          pDst_uv = i32 (dstWidth * dstHeight)
      in do {
        dst \<leftarrow> luma_rows (nat srcHeight) (size_of srcWidth) srcBits srcWidth dstWidth 0 0 dstBits;
        dst \<leftarrow> join_rows (nat (srcHeight sdiv 2)) (nat (srcWidth sdiv 2)) srcBits (srcWidth sdiv 2) dstWidth pSrc_u pSrc_v pDst_uv dst;
        Some (0, dst)
      })"

text \<open>The results: status, width, height, rectangle and buffer size for the encoder.\<close>

definition getEncoderInputBufferInfo :: "int \<Rightarrow> int \<Rightarrow> int \<times> int \<times> int \<times> ARect \<times> int" where
  "getEncoderInputBufferInfo actualWidth actualHeight =
     (0, actualWidth, actualHeight,
      \<lparr>ar_left = 0, ar_top = 0, ar_right = i32 (actualWidth - 1), ar_bottom = i32 (actualHeight - 1)\<rparr>,
      i32 (i32 (actualWidth * actualHeight) * 3) sdiv 2)"

section \<open>Lemmas on the loops\<close>

lemma i32_id: "- (2 ^ 31) \<le> x \<Longrightarrow> x < 2 ^ 31 \<Longrightarrow> i32 x = x"
  by (simp add: i32_def signed_take_bit_int_eq_self)

lemma i32_eq: "x = int k \<Longrightarrow> k < 2 ^ 31 \<Longrightarrow> i32 x = int k"
  by (simp add: i32_id)

lemma size_of_nat: "k < 2 ^ 31 \<Longrightarrow> size_of (int k) = k"
  by (simp add: size_of_def)

lemma size_of_id: "0 \<le> x \<Longrightarrow> x < 2 ^ 31 \<Longrightarrow> size_of x = nat x"
  by (simp add: size_of_def)

lemma sdiv_half: "0 \<le> x \<Longrightarrow> x sdiv 2 = x div (2 :: int)"
  by (simp add: signed_divide_int_def sgn_if)

lemma load_in: "p < length m \<Longrightarrow> load m (int p) = Some (m ! p)"
  by (simp add: load_def)

lemma store_in: "p < length m \<Longrightarrow> store m (int p) b = Some (m[p := b])"
  by (simp add: store_def)

lemma memcpy_in:
  assumes "p + n \<le> length dst" "q + n \<le> length src"
  shows "\<exists>dst'. memcpy dst (int p) src (int q) n = Some dst' \<and> length dst' = length dst \<and>
    (\<forall>x<n. dst' ! (p + x) = src ! (q + x)) \<and> (\<forall>k. k < p \<or> p + n \<le> k \<longrightarrow> dst' ! k = dst ! k)"
proof -
  have l: "length (take n (drop q src)) = n" "length (take p dst) = p" using assms by simp_all
  have "memcpy dst (int p) src (int q) n = Some (take p dst @ take n (drop q src) @ drop (p + n) dst)"
    using assms by (simp add: memcpy_def nat_add_distrib)
  moreover have "(take p dst @ take n (drop q src) @ drop (p + n) dst) ! k = dst ! k" if "k < p \<or> p + n \<le> k" for k
    using that assms by (auto simp: nth_append l simp del: length_take)
  ultimately show ?thesis using assms by (auto simp: nth_append)
qed

text \<open>The luma loop copies row by row and leaves the rest of the buffer alone.\<close>

lemma luma_rows_copy:
  assumes "w \<le> ds" "p + n * ds + w \<le> length dst + ds" "q + n * ss + w \<le> length src + ss"
  shows "\<exists>dst'. luma_rows n w src (int ss) (int ds) (int q) (int p) dst = Some dst' \<and> length dst' = length dst \<and>
    (\<forall>y<n. \<forall>x<w. dst' ! (p + y * ds + x) = src ! (q + y * ss + x)) \<and>
    (\<forall>k. k < p \<or> p + n * ds \<le> k \<longrightarrow> dst' ! k = dst ! k) \<and>
    (\<forall>y<n. \<forall>x. w \<le> x \<longrightarrow> x < ds \<longrightarrow> dst' ! (p + y * ds + x) = dst ! (p + y * ds + x))"
  using assms
proof (induction n arbitrary: p q dst)
  case (Suc n)
  have "p + w \<le> length dst" "q + w \<le> length src" using Suc.prems by auto
  from memcpy_in [OF this] obtain d1 where d1: "memcpy dst (int p) src (int q) w = Some d1" "length d1 = length dst"
    "\<And>x. x < w \<Longrightarrow> d1 ! (p + x) = src ! (q + x)" "\<And>k. k < p \<or> p + w \<le> k \<Longrightarrow> d1 ! k = dst ! k" by blast
  have le: "n > 0 \<or> n = 0" "(p + ds) + n * ds + w \<le> length d1 + ds" "(q + ss) + n * ss + w \<le> length src + ss"
    using Suc.prems d1(2) by (auto simp: algebra_simps)
  from Suc.IH [OF Suc.prems(1) le(2,3)] obtain d2 where
    d2: "luma_rows n w src (int ss) (int ds) (int (q + ss)) (int (p + ds)) d1 = Some d2" "length d2 = length d1"
    "\<And>y x. y < n \<Longrightarrow> x < w \<Longrightarrow> d2 ! (p + ds + y * ds + x) = src ! (q + ss + y * ss + x)"
    "\<And>k. k < p + ds \<or> p + ds + n * ds \<le> k \<Longrightarrow> d2 ! k = d1 ! k"
    "\<And>y x. y < n \<Longrightarrow> w \<le> x \<Longrightarrow> x < ds \<Longrightarrow> d2 ! (p + ds + y * ds + x) = d1 ! (p + ds + y * ds + x)" by blast
  show ?case
  proof (intro exI conjI allI impI)
    show "luma_rows (Suc n) w src (int ss) (int ds) (int q) (int p) dst = Some d2"
      using d1(1) d2(1) by (simp add: ac_simps)
    show "length d2 = length dst" using d1(2) d2(2) by simp
    show "d2 ! (p + y * ds + x) = src ! (q + y * ss + x)" if "y < Suc n" "x < w" for y x
    proof (cases y)
      case 0
      with d2(4) [of "p + x"] d1(3) [of x] that Suc.prems(1) show ?thesis by simp
    next
      case (Suc z)
      with d2(3) [of z x] that show ?thesis by (simp add: ac_simps)
    qed
    show "d2 ! k = dst ! k" if "k < p \<or> p + Suc n * ds \<le> k" for k
      using d2(4) [of k] d1(4) [of k] that Suc.prems(1) by (auto simp: algebra_simps)
    show "d2 ! (p + y * ds + x) = dst ! (p + y * ds + x)" if "y < Suc n" "w \<le> x" "x < ds" for y x
    proof (cases y)
      case 0
      with d2(4) [of "p + x"] d1(4) [of "p + x"] that show ?thesis by simp
    next
      case (Suc z)
      with d2(5) [of z x] d1(4) [of "p + ds + z * ds + x"] that Suc.prems(1) show ?thesis by (simp add: ac_simps)
    qed
  qed
qed simp


lemma split_row_ok:
  assumes "u + x + n \<le> v + x" "v + x + n \<le> length dst" "q + 2 * (x + n) \<le> length src"
  shows "\<exists>dst'. split_row n x src (int q) (int u) (int v) dst = Some dst' \<and> length dst' = length dst \<and>
    (\<forall>i. x \<le> i \<longrightarrow> i < x + n \<longrightarrow> dst' ! (u + i) = src ! (q + 2 * i) \<and> dst' ! (v + i) = src ! (q + 2 * i + 1)) \<and>
    (\<forall>k. (k < u + x \<or> u + x + n \<le> k) \<longrightarrow> (k < v + x \<or> v + x + n \<le> k) \<longrightarrow> dst' ! k = dst ! k)"
  using assms
proof (induction n arbitrary: x dst)
  case (Suc n)
  define d where "d = dst[u + x := src ! (q + 2 * x), v + x := src ! (q + 2 * x + 1)]"
  have b: "u + x < length dst" "v + x < length dst" "q + 2 * x + 1 < length src" "u + x < v + x" using Suc.prems by auto
  have "split_row (Suc n) x src (int q) (int u) (int v) dst = split_row n (x + 1) src (int q) (int u) (int v) d"
    using b load_in [of "q + 2 * x" src] load_in [of "q + 2 * x + 1" src] store_in [of "u + x" dst] store_in [of "v + x" "dst[u + x := src ! (q + 2 * x)]"]
    by (simp add: d_def ac_simps)
  moreover have "u + (x + 1) + n \<le> v + (x + 1)" "v + (x + 1) + n \<le> length d" "q + 2 * ((x + 1) + n) \<le> length src"
    using Suc.prems by (auto simp: d_def)
  from Suc.IH [OF this] obtain d' where d': "split_row n (x + 1) src (int q) (int u) (int v) d = Some d'" "length d' = length d"
    "\<And>i. x + 1 \<le> i \<Longrightarrow> i < x + 1 + n \<Longrightarrow> d' ! (u + i) = src ! (q + 2 * i) \<and> d' ! (v + i) = src ! (q + 2 * i + 1)"
    "\<And>k. k < u + (x + 1) \<or> u + (x + 1) + n \<le> k \<Longrightarrow> k < v + (x + 1) \<or> v + (x + 1) + n \<le> k \<Longrightarrow> d' ! k = d ! k" by blast
  ultimately show ?case
  proof (intro exI [of _ d'] conjI allI impI, goal_cases)
    case 1 then show ?case by simp
  next
    case 2 then show ?case by (simp add: d_def)
  next
    case (3 i)
    then show ?case using d'(3) [of i] d'(4) [of "u + x"] b Suc.prems by (cases "i = x") (auto simp: d_def nth_list_update)
  next
    case (4 i)
    then show ?case using d'(3) [of i] d'(4) [of "v + x"] b Suc.prems by (cases "i = x") (auto simp: d_def nth_list_update)
  next
    case (5 k)
    then show ?case using d'(4) [of k] b Suc.prems by (auto simp: d_def nth_list_update)
  qed
qed simp

lemma join_row_ok:
  assumes "p + 2 * (j + n) \<le> length dst" "u + j + n \<le> length src" "v + j + n \<le> length src"
  shows "\<exists>dst'. join_row n (int j) (int (2 * j)) src (int u) (int v) (int p) dst = Some dst' \<and> length dst' = length dst \<and>
    (\<forall>i. j \<le> i \<longrightarrow> i < j + n \<longrightarrow> dst' ! (p + 2 * i) = src ! (u + i) \<and> dst' ! (p + 2 * i + 1) = src ! (v + i)) \<and>
    (\<forall>k. k < p + 2 * j \<or> p + 2 * (j + n) \<le> k \<longrightarrow> dst' ! k = dst ! k)"
  using assms
proof (induction n arbitrary: j dst)
  case (Suc n)
  define d where "d = dst[p + 2 * j := src ! (u + j), p + 2 * j + 1 := src ! (v + j)]"
  have b: "p + 2 * j + 1 < length dst" "u + j < length src" "v + j < length src" using Suc.prems by auto
  have "join_row (Suc n) (int j) (int (2 * j)) src (int u) (int v) (int p) dst =
      join_row n (int (j + 1)) (int (2 * (j + 1))) src (int u) (int v) (int p) d"
    using b load_in [of "u + j" src] load_in [of "v + j" src] store_in [of "p + 2 * j" dst] store_in [of "p + 2 * j + 1" "dst[p + 2 * j := src ! (u + j)]"]
    by (simp add: d_def ac_simps)
  moreover have "p + 2 * ((j + 1) + n) \<le> length d" "u + (j + 1) + n \<le> length src" "v + (j + 1) + n \<le> length src"
    using Suc.prems by (auto simp: d_def)
  from Suc.IH [OF this] obtain d' where d': "join_row n (int (j + 1)) (int (2 * (j + 1))) src (int u) (int v) (int p) d = Some d'" "length d' = length d"
    "\<And>i. j + 1 \<le> i \<Longrightarrow> i < j + 1 + n \<Longrightarrow> d' ! (p + 2 * i) = src ! (u + i) \<and> d' ! (p + 2 * i + 1) = src ! (v + i)"
    "\<And>k. k < p + 2 * (j + 1) \<or> p + 2 * (j + 1 + n) \<le> k \<Longrightarrow> d' ! k = d ! k" by blast
  ultimately show ?case
  proof (intro exI [of _ d'] conjI allI impI, goal_cases)
    case 1 then show ?case by simp
  next
    case 2 then show ?case by (simp add: d_def)
  next
    case (3 i)
    then show ?case using d'(3) [of i] d'(4) [of "p + 2 * j"] b by (cases "i = j") (auto simp: d_def nth_list_update)
  next
    case (4 i)
    then show ?case using d'(3) [of i] d'(4) [of "p + 2 * j + 1"] b by (cases "i = j") (auto simp: d_def nth_list_update)
  next
    case (5 k)
    then show ?case using d'(4) [of k] b by (auto simp: d_def nth_list_update)
  qed
qed simp

lemma split_rows_ok:
  assumes "u + n * w \<le> v" "v + n * w \<le> length dst" "q + n * ss + 2 * w \<le> length src + ss"
  shows "\<exists>dst'. split_rows n w src (int ss) (int w) (int q) (int u) (int v) dst = Some dst' \<and> length dst' = length dst \<and>
    (\<forall>y<n. \<forall>x<w. dst' ! (u + y * w + x) = src ! (q + y * ss + 2 * x) \<and> dst' ! (v + y * w + x) = src ! (q + y * ss + 2 * x + 1)) \<and>
    (\<forall>k. (k < u \<or> u + n * w \<le> k) \<longrightarrow> (k < v \<or> v + n * w \<le> k) \<longrightarrow> dst' ! k = dst ! k)"
  using assms
proof (induction n arbitrary: u v q dst)
  case (Suc n)
  have "u + 0 + w \<le> v + 0" "v + 0 + w \<le> length dst" "q + 2 * (0 + w) \<le> length src" using Suc.prems by auto
  from split_row_ok [OF this] obtain d1 where d1: "split_row w 0 src (int q) (int u) (int v) dst = Some d1" "length d1 = length dst"
    "\<And>i. i < w \<Longrightarrow> d1 ! (u + i) = src ! (q + 2 * i) \<and> d1 ! (v + i) = src ! (q + 2 * i + 1)"
    "\<And>k. k < u \<or> u + w \<le> k \<Longrightarrow> k < v \<or> v + w \<le> k \<Longrightarrow> d1 ! k = dst ! k" by auto
  have "(u + w) + n * w \<le> v + w" "(v + w) + n * w \<le> length d1" "(q + ss) + n * ss + 2 * w \<le> length src + ss"
    using Suc.prems d1(2) by auto
  from Suc.IH [OF this] obtain d2 where
    d2: "split_rows n w src (int ss) (int w) (int (q + ss)) (int (u + w)) (int (v + w)) d1 = Some d2" "length d2 = length d1"
    "\<And>y x. y < n \<Longrightarrow> x < w \<Longrightarrow> d2 ! (u + w + y * w + x) = src ! (q + ss + y * ss + 2 * x) \<and>
        d2 ! (v + w + y * w + x) = src ! (q + ss + y * ss + 2 * x + 1)"
    "\<And>k. k < u + w \<or> u + w + n * w \<le> k \<Longrightarrow> k < v + w \<or> v + w + n * w \<le> k \<Longrightarrow> d2 ! k = d1 ! k" by blast
  have first: "d2 ! (u + x) = d1 ! (u + x)" "d2 ! (v + x) = d1 ! (v + x)" if "x < w" for x
    using that Suc.prems d2(4) [of "u + x"] d2(4) [of "v + x"] by auto
  show ?case
  proof (intro exI conjI allI impI)
    show "split_rows (Suc n) w src (int ss) (int w) (int q) (int u) (int v) dst = Some d2"
      using d1(1) d2(1) by (simp add: ac_simps)
    show "length d2 = length dst" using d1(2) d2(2) by simp
    show "d2 ! (u + y * w + x) = src ! (q + y * ss + 2 * x)" if "y < Suc n" "x < w" for y x
      using that d1(3) [of x] first [of x] d2(3) [of "y - 1" x] by (cases y) (simp_all add: ac_simps)
    show "d2 ! (v + y * w + x) = src ! (q + y * ss + 2 * x + 1)" if "y < Suc n" "x < w" for y x
      using that d1(3) [of x] first [of x] d2(3) [of "y - 1" x] by (cases y) (simp_all add: ac_simps)
    show "d2 ! k = dst ! k" if "k < u \<or> u + Suc n * w \<le> k" "k < v \<or> v + Suc n * w \<le> k" for k
      using d2(4) [of k] d1(4) [of k] that Suc.prems(1) by auto
  qed
qed simp

lemma join_rows_ok:
  assumes "2 * w \<le> ds" "p + n * ds + 2 * w \<le> length dst + ds" "u + n * w \<le> length src" "v + n * w \<le> length src"
  shows "\<exists>dst'. join_rows n w src (int w) (int ds) (int u) (int v) (int p) dst = Some dst' \<and> length dst' = length dst \<and>
    (\<forall>y<n. \<forall>x<w. dst' ! (p + y * ds + 2 * x) = src ! (u + y * w + x) \<and> dst' ! (p + y * ds + 2 * x + 1) = src ! (v + y * w + x)) \<and>
    (\<forall>k<p. dst' ! k = dst ! k)"
  using assms
proof (induction n arbitrary: u v p dst)
  case (Suc n)
  have "p + 2 * (0 + w) \<le> length dst" "u + 0 + w \<le> length src" "v + 0 + w \<le> length src" using Suc.prems by auto
  from join_row_ok [OF this] obtain d1 where d1: "join_row w 0 0 src (int u) (int v) (int p) dst = Some d1" "length d1 = length dst"
    "\<And>i. i < w \<Longrightarrow> d1 ! (p + 2 * i) = src ! (u + i) \<and> d1 ! (p + 2 * i + 1) = src ! (v + i)"
    "\<And>k. k < p \<Longrightarrow> d1 ! k = dst ! k" by auto
  have "(p + ds) + n * ds + 2 * w \<le> length d1 + ds" "(u + w) + n * w \<le> length src" "(v + w) + n * w \<le> length src"
    using Suc.prems d1(2) by auto
  from Suc.IH [OF Suc.prems(1) this] obtain d2 where
    d2: "join_rows n w src (int w) (int ds) (int (u + w)) (int (v + w)) (int (p + ds)) d1 = Some d2" "length d2 = length d1"
    "\<And>y x. y < n \<Longrightarrow> x < w \<Longrightarrow> d2 ! (p + ds + y * ds + 2 * x) = src ! (u + w + y * w + x) \<and>
        d2 ! (p + ds + y * ds + 2 * x + 1) = src ! (v + w + y * w + x)"
    "\<And>k. k < p + ds \<Longrightarrow> d2 ! k = d1 ! k" by blast
  have first: "d2 ! (p + 2 * x) = d1 ! (p + 2 * x)" "d2 ! Suc (p + 2 * x) = d1 ! Suc (p + 2 * x)" if "x < w" for x
    using that Suc.prems(1) d2(4) [of "p + 2 * x"] d2(4) [of "Suc (p + 2 * x)"] by auto
  show ?case
  proof (intro exI conjI allI impI)
    show "join_rows (Suc n) w src (int w) (int ds) (int u) (int v) (int p) dst = Some d2"
      using d1(1) d2(1) by (simp add: ac_simps)
    show "length d2 = length dst" using d1(2) d2(2) by simp
    show "d2 ! (p + y * ds + 2 * x) = src ! (u + y * w + x)" if "y < Suc n" "x < w" for y x
      using that d1(3) [of x] first [of x] d2(3) [of "y - 1" x] by (cases y) (simp_all add: ac_simps)
    show "d2 ! (p + y * ds + 2 * x + 1) = src ! (v + y * w + x)" if "y < Suc n" "x < w" for y x
      using that d1(3) [of x] first [of x] d2(3) [of "y - 1" x] by (cases y) (simp_all add: ac_simps)
    show "d2 ! k = dst ! k" if "k < p" for k
      using d2(4) [of k] d1(4) [of k] that by auto
  qed
qed simp

section \<open>Images\<close>

text \<open>
  The abstract view of a frame: the three planes as rows of samples, chroma at half the size
  in both directions, read from the two memory layouts.
\<close>

record image =
  im_luma :: "u8 list list"
  im_cb :: "u8 list list"
  im_cr :: "u8 list list"

definition grid :: "nat \<Rightarrow> nat \<Rightarrow> (nat \<Rightarrow> nat \<Rightarrow> u8) \<Rightarrow> u8 list list" where
  "grid h w f = map (\<lambda>y. map (f y) [0..<w]) [0..<h]"

definition nv12_image :: "nat \<Rightarrow> nat \<Rightarrow> u8 list \<Rightarrow> image" where
  "nv12_image w h m = \<lparr>im_luma = grid h w (\<lambda>y x. m ! (y * w + x)),
     im_cb = grid (h div 2) (w div 2) (\<lambda>y x. m ! (w * h + y * w + 2 * x)),
     im_cr = grid (h div 2) (w div 2) (\<lambda>y x. m ! (w * h + y * w + 2 * x + 1))\<rparr>"

definition i420_image :: "nat \<Rightarrow> nat \<Rightarrow> u8 list \<Rightarrow> image" where
  "i420_image w h m = \<lparr>im_luma = grid h w (\<lambda>y x. m ! (y * w + x)),
     im_cb = grid (h div 2) (w div 2) (\<lambda>y x. m ! (w * h + y * (w div 2) + x)),
     im_cr = grid (h div 2) (w div 2) (\<lambda>y x. m ! (w * h + (w div 2) * (h div 2) + y * (w div 2) + x))\<rparr>"

definition crop_plane :: "nat \<Rightarrow> nat \<Rightarrow> nat \<Rightarrow> nat \<Rightarrow> u8 list list \<Rightarrow> u8 list list" where
  "crop_plane l t w h rows = map (\<lambda>r. take w (drop l r)) (take h (drop t rows))"

definition crop :: "nat \<Rightarrow> nat \<Rightarrow> nat \<Rightarrow> nat \<Rightarrow> image \<Rightarrow> image" where
  "crop l t w h im = \<lparr>im_luma = crop_plane l t w h (im_luma im),
     im_cb = crop_plane (l div 2) (t div 2) (w div 2) (h div 2) (im_cb im),
     im_cr = crop_plane (l div 2) (t div 2) (w div 2) (h div 2) (im_cr im)\<rparr>"

lemma grid_cong: "(\<And>y x. y < h \<Longrightarrow> x < w \<Longrightarrow> f y x = g y x) \<Longrightarrow> grid h w f = grid h w g"
  by (simp add: grid_def)

lemma grid_eqD: "grid h w f = grid h w g \<Longrightarrow> y < h \<Longrightarrow> x < w \<Longrightarrow> f y x = g y x"
  by (simp add: grid_def list_eq_iff_nth_eq)

lemma crop_grid: "l + w \<le> W \<Longrightarrow> t + h \<le> H \<Longrightarrow> crop_plane l t w h (grid H W f) = grid h w (\<lambda>y x. f (t + y) (l + x))"
  by (auto simp: crop_plane_def grid_def intro!: nth_equalityI)

lemma decoder_run:
  fixes W H l t w h :: nat
  assumes even: "even l" "even t" "even w" "even h" and pos: "0 < w" "0 < h"
    and fits: "l + w \<le> W" "t + h \<le> H" "3 * (W * H) < 2 ^ 31"
    and src: "W * H + (H div 2) * W \<le> length src" and dst: "w * h + 2 * ((w div 2) * (h div 2)) \<le> length dst"
  shows "\<exists>dst'. convertDecoderOutputToI420 src (int W) (int H)
        \<lparr>ar_left = int l, ar_top = int t, ar_right = int (l + w) - 1, ar_bottom = int (t + h) - 1\<rparr> dst = Some (0, dst') \<and>
      length dst' = length dst \<and> i420_image w h dst' = crop l t w h (nv12_image W H src)"
proof -
  obtain l' t' w' h' where e: "l = 2 * l'" "t = 2 * t'" "w = 2 * w'" "h = 2 * h'" using even by (auto elim!: evenE)
  have W: "0 < W" "0 < H" using fits pos by auto
  have "W * 1 \<le> W * H" "1 * H \<le> W * H" by (rule mult_le_mono; use W in simp)+
  then have WH: "W \<le> W * H" "H \<le> W * H" by simp_all
  have wh: "w * h \<le> W * H" using fits by (intro mult_le_mono) auto
  have Wt: "W * t + W * h \<le> W * H" using fits by (metis add_mult_distrib2 mult_le_mono2)
  have Wt': "W * t' + W * h' \<le> W * (H div 2)"
    using fits e by (metis add_mult_distrib2 mult_le_mono2 div_le_mono nonzero_mult_div_cancel_left zero_neq_numeral distrib_left)
  have hw: "w' * h \<le> w * h" "W * (H - t') \<le> W * H" using e by (auto intro: mult_le_mono)
  have hw': "w' * h' \<le> w * h" using e by (intro mult_le_mono) auto
  have "W * t + W \<le> W * t + W * h" using pos by simp
  with Wt fits have Wtl: "W * t + l < W * H" using pos by linarith
  have i: "i32 (int W * int t + int l) = int (W * t + l)"
      "i32 (int W * (int H - int t sdiv 2)) = int (W * (H - t'))"
      "i32 (int (l + w) - 1 - int l + 1) = int w" "i32 (int (t + h) - 1 - int t + 1) = int h"
      "i32 (int w * int h) = int (w * h)" "i32 (int w sdiv 2 * int h) = int (w' * h)"
      "i32 (int w + 1) = int (w + 1)" "i32 (int h + 1) = int (h + 1)"
  proof -
    have s: "int t sdiv 2 = int t'" "int w sdiv 2 = int w'" by (simp_all add: sdiv_half e)
    have h: "int H - int t' = int (H - t')" using fits e by (simp add: of_nat_diff)
    have a: "int W * int t + int l = int (W * t + l)" "int W * (int H - int t sdiv 2) = int (W * (H - t'))"
        "int (l + w) - 1 - int l + 1 = int w" "int (t + h) - 1 - int t + 1 = int h"
        "int w * int h = int (w * h)" "int w sdiv 2 * int h = int (w' * h)" "int w + 1 = int (w + 1)" "int h + 1 = int (h + 1)"
      by (simp_all only: s h of_nat_mult of_nat_add of_nat_1)
    have k: "i32 (int k) = int k" if "k \<le> W * H + 1" for k
      using that fits(3) by (intro i32_id) auto
    show "i32 (int W * int t + int l) = int (W * t + l)" "i32 (int W * (int H - int t sdiv 2)) = int (W * (H - t'))"
      "i32 (int (l + w) - 1 - int l + 1) = int w" "i32 (int (t + h) - 1 - int t + 1) = int h"
      "i32 (int w * int h) = int (w * h)" "i32 (int w sdiv 2 * int h) = int (w' * h)"
      "i32 (int w + 1) = int (w + 1)" "i32 (int h + 1) = int (h + 1)"
      by (simp_all only: a) (rule k, use Wtl hw wh fits WH in linarith)+
  qed
  have sz: "size_of (int k) = k" if "k \<le> W * H" for k
    using that fits(3) by (simp add: size_of_id nat_int)
  let ?q = "W * H + W * t' + l"
  have q: "int (W * t + l) + int (W * (H - t')) = int ?q"
  proof -
    have "t + (H - t') = H + t'" using fits e by simp
    then have "W * t + W * (H - t') = W * H + W * t'" by (metis add_mult_distrib2)
    then show ?thesis by (metis add.commute add.left_commute of_nat_add)
  qed
  obtain d1 where d1: "luma_rows h w src (int W) (int w) (int (W * t + l)) 0 dst = Some d1" "length d1 = length dst"
    "\<And>y x. y < h \<Longrightarrow> x < w \<Longrightarrow> d1 ! (0 + y * w + x) = src ! (W * t + l + y * W + x)"
    using luma_rows_copy [of w w 0 h dst "W * t + l" W src] Wt fits src dst by (auto simp: mult.commute)
  have hd: "(w' * h) div 2 = w' * h'" by (simp add: e)
  obtain d2 where d2: "split_rows h' w' src (int W) (int w') (int ?q) (int (w * h)) (int (w * h + w' * h')) d1 = Some d2" "length d2 = length d1"
    "\<And>y x. y < h' \<Longrightarrow> x < w' \<Longrightarrow> d2 ! (w * h + y * w' + x) = src ! (?q + y * W + 2 * x) \<and>
        d2 ! (w * h + w' * h' + y * w' + x) = src ! (?q + y * W + 2 * x + 1)"
    "\<And>k. k < w * h \<Longrightarrow> d2 ! k = d1 ! k"
    using split_rows_ok [of "w * h" h' w' "w * h + w' * h'" d1 ?q W src] d1(2) Wt' fits src dst e
    by (auto simp: mult.commute)
  have run: "convertDecoderOutputToI420 src (int W) (int H)
      \<lparr>ar_left = int l, ar_top = int t, ar_right = int (l + w) - 1, ar_bottom = int (t + h) - 1\<rparr> dst = Some (0, d2)"
  proof -
    have "int (w + 1) sdiv 2 = int w'" "int (h + 1) sdiv 2 = int h'" "int w sdiv 2 = int w'" "int (w' * h) sdiv 2 = int (w' * h')"
      by (simp_all add: sdiv_half e)
    moreover have "size_of (int w') = w'" "size_of (int w) = w" "size_of (int (w * h)) = w * h" "size_of (int (w' * h')) = w' * h'"
      by (rule sz; use e wh WH hw hw' fits in linarith)+
    moreover have "i32 (int w' * int h) = int (w' * h)" using i(6) by (simp only: sdiv_half of_nat_0_le_iff) (simp add: e)
    ultimately show ?thesis
      using d1(1) d2(1)
      by (simp only: convertDecoderOutputToI420_def Let_def ARect.simps i q nat_int of_nat_add [of "w * h" "w' * h'", symmetric] of_nat_0 Option.bind_lunit)
  qed
  have "i420_image w h d2 = crop l t w h (nv12_image W H src)"
  proof -
    have "l' + w' \<le> W div 2" "t' + h' \<le> H div 2" using fits e by auto
    then have c: "crop_plane l t w h (grid H W f) = grid h w (\<lambda>y x. f (t + y) (l + x))"
        "crop_plane l' t' w' h' (grid (H div 2) (W div 2) g) = grid h' w' (\<lambda>y x. g (t' + y) (l' + x))" for f g
      using fits by (auto intro: crop_grid)
    have half: "l div 2 = l'" "t div 2 = t'" "w div 2 = w'" "h div 2 = h'" by (simp_all add: e)
    have "d2 ! (y * w + x) = src ! ((t + y) * W + (l + x))" if "y < h" "x < w" for y x
    proof -
      have "y * w + x < y * w + w" using that by simp
      also have "\<dots> \<le> w * h" using that mult_le_mono1 [of "Suc y" h w] by (simp add: mult.commute)
      finally show ?thesis using d2(4) d1(3) [OF that] by (simp add: algebra_simps)
    qed
    moreover have "d2 ! (w * h + y * w' + x) = src ! (W * H + (t' + y) * W + 2 * (l' + x))"
        "d2 ! (w * h + w' * h' + y * w' + x) = src ! (W * H + (t' + y) * W + 2 * (l' + x) + 1)" if "y < h'" "x < w'" for y x
      using d2(3) [OF that] e by (simp_all add: algebra_simps)
    ultimately show ?thesis
      by (auto simp: i420_image_def crop_def nv12_image_def half c intro!: grid_cong)
  qed
  with run d1(2) d2(2) show ?thesis by auto
qed

lemma encoder_run:
  fixes W H w h :: nat
  assumes even: "even w" "even h" and fits: "w \<le> W" "h \<le> H" "3 * (W * H) < 2 ^ 31"
    and src: "w * h + 2 * ((w div 2) * (h div 2)) \<le> length src" and dst: "W * H + (H div 2) * W \<le> length dst"
  shows "\<exists>dst'. convertI420ToEncoderInput src (int w) (int h) (int W) (int H) rect dst = Some (0, dst') \<and>
      length dst' = length dst \<and> crop 0 0 w h (nv12_image W H dst') = i420_image w h src"
proof -
  obtain w' h' where e: "w = 2 * w'" "h = 2 * h'" using even by (auto elim!: evenE)
  have wh: "w * h \<le> W * H" "w' * h' \<le> w * h" "w \<le> W * H \<or> h = 0"
  proof -
    show "w * h \<le> W * H" using fits by (intro mult_le_mono)
    show "w' * h' \<le> w * h" using e by (intro mult_le_mono) auto
    show "w \<le> W * H \<or> h = 0" using fits mult_le_mono [of w W 1 H] by (cases "h = 0") auto
  qed
  have k: "i32 (int k) = int k" if "k \<le> W * H" for k
    using that fits(3) by (intro i32_id) auto
  have half: "int w sdiv 2 = int w'" "int h sdiv 2 = int h'" by (simp_all add: sdiv_half e)
  have i: "i32 (int w * int h) = int (w * h)" "i32 (int w' * int h') = int (w' * h')" "i32 (int W * int H) = int (W * H)"
    using k [of "w * h"] k [of "w' * h'"] k [of "W * H"] wh by auto
  have le: "h * W \<le> H * W" "h' * W \<le> (H div 2) * W" using fits e by (auto intro!: mult_le_mono1)
  have room: "W * h + w \<le> length dst + W"
    using le(1) fits(1) dst mult.commute [of H W] mult.commute [of h W] by linarith
  obtain d1 where d1: "luma_rows h w src (int w) (int W) 0 0 dst = Some d1" "length d1 = length dst"
    "\<And>y x. y < h \<Longrightarrow> x < w \<Longrightarrow> d1 ! (y * W + x) = src ! (y * w + x)"
    using luma_rows_copy [of w W 0 h dst 0 w src] fits src room by (auto simp: mult.commute)
  have room': "W * H + h' * W + 2 * w' \<le> length d1 + W" using le(2) fits(1) dst e(1) d1(2) by linarith
  obtain d2 where d2: "join_rows h' w' src (int w') (int W) (int (w * h)) (int (w * h + w' * h')) (int (W * H)) d1 = Some d2"
    "length d2 = length d1"
    "\<And>y x. y < h' \<Longrightarrow> x < w' \<Longrightarrow> d2 ! (W * H + y * W + 2 * x) = src ! (w * h + y * w' + x) \<and>
        d2 ! (W * H + y * W + 2 * x + 1) = src ! (w * h + w' * h' + y * w' + x)"
    "\<And>k. k < W * H \<Longrightarrow> d2 ! k = d1 ! k"
    using join_rows_ok [of w' W "W * H" h' d1 "w * h" src "w * h + w' * h'"] d1(2) fits e room' src
    by (auto simp: mult.commute)
  have run: "convertI420ToEncoderInput src (int w) (int h) (int W) (int H) rect dst = Some (0, d2)"
  proof -
    have "size_of (int w) = w \<or> h = 0" using wh(3) fits(3) by (auto simp: size_of_id)
    moreover have "luma_rows 0 n src (int w) (int W) 0 0 dst = Some d1" if "h = 0" for n using d1(1) that by simp
    ultimately have "luma_rows (nat (int h)) (size_of (int w)) src (int w) (int W) 0 0 dst = Some d1" using d1(1) by auto
    then show ?thesis
      using d2(1) by (simp only: convertI420ToEncoderInput_def Let_def i half nat_int
          of_nat_add [of "w * h" "w' * h'", symmetric] Option.bind_lunit)
  qed
  have "crop 0 0 w h (nv12_image W H d2) = i420_image w h src"
  proof -
    have "0 + w' \<le> W div 2" "0 + h' \<le> H div 2" using fits e by auto
    then have c: "crop_plane 0 0 w h (grid H W f) = grid h w f"
        "crop_plane 0 0 w' h' (grid (H div 2) (W div 2) g) = grid h' w' g" for f g
      using fits crop_grid [of 0 w W 0 h H f] crop_grid [of 0 w' "W div 2" 0 h' "H div 2" g] by simp_all
    have hv: "w div 2 = w'" "h div 2 = h'" by (simp_all add: e)
    have "d2 ! (y * W + x) = src ! (y * w + x)" if "y < h" "x < w" for y x
    proof -
      have "y * W + x < y * W + W" using that fits by simp
      also have "\<dots> \<le> W * H" using that fits mult_le_mono1 [of "Suc y" H W] by (simp add: mult.commute)
      finally show ?thesis using d2(4) d1(3) [OF that] by simp
    qed
    with d2(3) show ?thesis
      by (auto simp: i420_image_def crop_def nv12_image_def hv c intro!: grid_cong)
  qed
  with run d1(2) d2(2) show ?thesis by auto
qed

text \<open>An I420 buffer of the exact size is determined by its image.\<close>

lemma div_mod_less: "k < h * w \<Longrightarrow> k div w < h \<and> k mod w < (w :: nat)"
  by (metis less_mult_imp_div_less mod_less_divisor gr_implies_not0 mult_0_right neq0_conv)

lemma i420_image_inj:
  assumes "i420_image w h a = i420_image w h b" "length a = w * h + 2 * ((w div 2) * (h div 2))" "length b = length a"
  shows "a = b"
proof (rule nth_equalityI)
  let ?w = "w div 2" and ?h = "h div 2"
  have p: "y < h \<Longrightarrow> x < w \<Longrightarrow> a ! (y * w + x) = b ! (y * w + x)"
    "y < ?h \<Longrightarrow> x < ?w \<Longrightarrow> a ! (w * h + y * ?w + x) = b ! (w * h + y * ?w + x)"
    "y < ?h \<Longrightarrow> x < ?w \<Longrightarrow> a ! (w * h + ?w * ?h + y * ?w + x) = b ! (w * h + ?w * ?h + y * ?w + x)" for y x
    using assms(1) by (auto simp: i420_image_def dest: grid_eqD)
  fix k assume k: "k < length a"
  consider "k < h * w" | "h * w \<le> k" "k - w * h < ?h * ?w" | "h * w + ?h * ?w \<le> k" "k - w * h - ?w * ?h < ?h * ?w"
    using k assms(2) by (cases "k < h * w"; cases "k < h * w + ?h * ?w") (simp_all add: mult.commute less_diff_conv2)
  then show "a ! k = b ! k"
  proof cases
    case 1
    with p(1) [of "k div w" "k mod w"] div_mod_less [of k h w] show ?thesis by simp
  next
    case 2
    with p(2) [of "(k - w * h) div ?w" "(k - w * h) mod ?w"] div_mod_less [of "k - w * h" ?h ?w]
    show ?thesis by (simp add: mult.commute add.assoc)
  next
    case 3
    with p(3) [of "(k - w * h - ?w * ?h) div ?w" "(k - w * h - ?w * ?h) mod ?w"] div_mod_less [of "k - w * h - ?w * ?h" ?h ?w]
    show ?thesis by (simp add: mult.commute add.assoc)
  qed
qed (simp add: assms(3))

section \<open>What a row that fits needs\<close>

lemma store_length: "store m p b = Some m' \<Longrightarrow> length m' = length m \<and> 0 \<le> p \<and> p < int (length m)"
  by (auto simp: store_def split: if_splits)

lemma split_row_needs:
  "split_row n x src q u v dst = Some d \<Longrightarrow> length d = length dst \<and> (0 < n \<longrightarrow> v + int (x + n) \<le> int (length dst))"
proof (induction n x src q u v dst rule: split_row.induct)
  case (2 n x src q u v dst)
  then obtain a b d1 d2 where st: "store dst (u + int x) a = Some d1" "store d1 (v + int x) b = Some d2"
    and r: "split_row n (x + 1) src q u v d2 = Some d" and l: "load src (q + 2 * int x) = Some a" "load src (q + 2 * int x + 1) = Some b"
    by (auto simp: bind_eq_Some_conv)
  have "length d2 = length dst" "v + int x < int (length dst)"
    using store_length [OF st(1)] store_length [OF st(2)] by auto
  with "2.IH" [OF l(1) st(1) l(2) st(2) r] show ?case by (cases n) auto
qed simp

lemma split_rows_needs:
  "split_rows n w src ss ds q u v dst = Some d \<Longrightarrow>
     length d = length dst \<and> (0 < n \<and> 0 < w \<longrightarrow> v + int (n - 1) * ds + int w \<le> int (length dst))"
proof (induction n w src ss ds q u v dst rule: split_rows.induct)
  case (2 n w src ss ds q u v dst)
  then obtain d1 where d1: "split_row w 0 src q u v dst = Some d1"
    "split_rows n w src ss ds (q + ss) (u + ds) (v + ds) d1 = Some d" by (auto simp: bind_eq_Some_conv)
  from 2(1) [OF d1] split_row_needs [OF d1(1)] show ?case by (cases n) (auto simp: algebra_simps)
qed simp

lemma luma_rows_length: "luma_rows n w src ss ds q p dst = Some d \<Longrightarrow> length d = length dst"
proof (induction n w src ss ds q p dst rule: luma_rows.induct)
  case (2 n w src ss ds q p dst)
  then show ?case by (auto simp: bind_eq_Some_conv memcpy_def split: if_splits)
qed simp

section \<open>Properties\<close>

text \<open>
  C7. For even positions and sizes the decoder side refines cropping: for every rectangle inside
  the frame whose left and top edge, width and height are even, in a frame of less than
  \<open>2 ^ 31 / 3\<close> pixels and with buffers that hold the two images, reading the result as an I420
  image gives the crop of the NV12 image in the source to the rectangle, all three planes; no
  access leaves the two buffers and the length stays. Odd widths and heights are not covered:
  see \<open>odd_width_mixes_planes\<close> and \<open>odd_height_overruns\<close>.
\<close>

theorem decoder_refines_crop:
  fixes W H l t w h :: nat
  assumes "even l" "even t" "even w" "even h" "0 < w" "0 < h" "l + w \<le> W" "t + h \<le> H" "3 * (W * H) < 2 ^ 31"
    and "W * H + (H div 2) * W \<le> length src" "w * h + 2 * ((w div 2) * (h div 2)) \<le> length dst"
  shows "\<exists>dst'. convertDecoderOutputToI420 src (int W) (int H)
        \<lparr>ar_left = int l, ar_top = int t, ar_right = int (l + w) - 1, ar_bottom = int (t + h) - 1\<rparr> dst = Some (0, dst') \<and>
      length dst' = length dst \<and> i420_image w h dst' = crop l t w h (nv12_image W H src)"
  using assms by (rule decoder_run)

theorem decoder_refines_crop_witness:
  "\<exists>dst'. convertDecoderOutputToI420 (map word_of_nat [0..<24]) 4 4
        \<lparr>ar_left = 2, ar_top = 2, ar_right = 3, ar_bottom = 3\<rparr> (replicate 6 0) = Some (0, dst') \<and>
      i420_image 2 2 dst' = \<lparr>im_luma = [[10, 11], [14, 15]], im_cb = [[22]], im_cr = [[23]]\<rparr>"
proof -
  have "crop 2 2 2 2 (nv12_image 4 4 (map word_of_nat [0..<24])) =
      \<lparr>im_luma = [[10, 11], [14, 15]], im_cb = [[22]], im_cr = [[23]]\<rparr>"
    by (simp add: crop_def crop_plane_def nv12_image_def grid_def upt_rec)
  then show ?thesis
    using decoder_refines_crop [of 2 2 2 2 4 4 "map word_of_nat [0..<24]" "replicate 6 0"] by auto
qed

text \<open>
  C37. For an image of even width and height the encoder side refines keeping the image: the
  upper left corner of the NV12 frame it writes shows the I420 image of the source, in any frame
  at least as large of less than \<open>2 ^ 31 / 3\<close> pixels and with buffers that hold the two images.
\<close>

theorem encoder_keeps_image:
  fixes W H w h :: nat
  assumes "even w" "even h" "w \<le> W" "h \<le> H" "3 * (W * H) < 2 ^ 31"
    and "w * h + 2 * ((w div 2) * (h div 2)) \<le> length src" "W * H + (H div 2) * W \<le> length dst"
  shows "\<exists>dst'. convertI420ToEncoderInput src (int w) (int h) (int W) (int H) rect dst = Some (0, dst') \<and>
      length dst' = length dst \<and> crop 0 0 w h (nv12_image W H dst') = i420_image w h src"
  using assms by (rule encoder_run)

theorem encoder_keeps_image_witness:
  "\<exists>dst'. convertI420ToEncoderInput [1, 2, 3, 4, 5, 6] 2 2 4 2 \<lparr>ar_left = 0, ar_top = 0, ar_right = 1, ar_bottom = 1\<rparr> (replicate 12 0) = Some (0, dst') \<and>
      crop 0 0 2 2 (nv12_image 4 2 dst') = \<lparr>im_luma = [[1, 2], [3, 4]], im_cb = [[5]], im_cr = [[6]]\<rparr>"
  using encoder_keeps_image [of 2 2 4 2 "[1, 2, 3, 4, 5, 6]" "replicate 12 0" "\<lparr>ar_left = 0, ar_top = 0, ar_right = 1, ar_bottom = 1\<rparr>"]
  by (auto simp: i420_image_def grid_def upt_rec)

text \<open>
  C17. For an image of even width and height, neither of them 0, and less than \<open>2 ^ 31 / 3\<close>
  pixels, converting for the encoder and back gives the same bytes, with the sizes, the rectangle
  and the buffer size that \<^verbatim>\<open>getEncoderInputBufferInfo\<close> reports.
\<close>

theorem encode_decode_roundtrip:
  fixes w h :: nat
  assumes "even w" "even h" "0 < w" "0 < h" "3 * (w * h) < 2 ^ 31"
    and "length src = w * h + 2 * ((w div 2) * (h div 2))" "length out = length src"
    and "getEncoderInputBufferInfo (int w) (int h) = (st, ew, eh, r, sz)" "length dst = nat sz"
  shows "\<exists>nv. convertI420ToEncoderInput src (int w) (int h) ew eh r dst = Some (0, nv) \<and>
    convertDecoderOutputToI420 nv ew eh r out = Some (0, src)"
proof -
  obtain w' h' where e: "w = 2 * w'" "h = 2 * h'" using assms(1,2) by (auto elim!: evenE)
  have "w * 1 \<le> w * h" "1 * h \<le> w * h" by (rule mult_le_mono; use assms(3,4) in simp)+
  then have le: "w < 2 ^ 31" "h < 2 ^ 31" "w * h < 2 ^ 31" using assms(5) by linarith+
  have i: "i32 (int w * int h) = int (w * h)" "i32 (int (w * h) * 3) = int (3 * (w * h))"
    "i32 (int w - 1) = int w - 1" "i32 (int h - 1) = int h - 1"
    by (rule i32_eq, simp, use le assms(5) in linarith)+ (rule i32_id, use le assms(3,4) in simp_all)+
  have "int (3 * (w * h)) sdiv 2 = int (3 * (w * h) div 2)" by (simp add: sdiv_half zdiv_int)
  then have info: "ew = int w" "eh = int h" "r = \<lparr>ar_left = 0, ar_top = 0, ar_right = int w - 1, ar_bottom = int h - 1\<rparr>"
    "sz = int (3 * (w * h) div 2)"
    using assms(8) unfolding getEncoderInputBufferInfo_def i by (auto simp only: prod.inject)
  have "nat sz = 3 * (w * h) div 2" unfolding info(4) by (rule nat_int)
  with assms(9) have "length dst = w * h + (h div 2) * w" by (simp add: e)
  then obtain nv where nv: "convertI420ToEncoderInput src (int w) (int h) (int w) (int h) r dst = Some (0, nv)"
    "length nv = w * h + (h div 2) * w" "crop 0 0 w h (nv12_image w h nv) = i420_image w h src"
    using encoder_run [OF assms(1,2) order_refl order_refl assms(5), of src dst r] assms(6) by auto
  obtain bk where bk: "convertDecoderOutputToI420 nv (int w) (int h) r out = Some (0, bk)" "length bk = length out"
    "i420_image w h bk = crop 0 0 w h (nv12_image w h nv)"
    using decoder_run [of 0 0 w h w h nv out] assms nv(2) by (auto simp: info(3))
  have "bk = src" using bk nv(3) assms(6,7) by (intro i420_image_inj) auto
  with nv(1) bk(1) info show ?thesis by auto
qed

theorem encode_decode_roundtrip_witness:
  "\<exists>nv. convertI420ToEncoderInput [1, 2, 3, 4, 5, 6] 2 2 2 2 \<lparr>ar_left = 0, ar_top = 0, ar_right = 1, ar_bottom = 1\<rparr> (replicate 6 0) = Some (0, nv) \<and>
    convertDecoderOutputToI420 nv 2 2 \<lparr>ar_left = 0, ar_top = 0, ar_right = 1, ar_bottom = 1\<rparr> (replicate 6 9) = Some (0, [1, 2, 3, 4, 5, 6])"
  using encode_decode_roundtrip [of 2 2 "[1, 2, 3, 4, 5, 6]" "replicate 6 9" 0 2 2
      "\<lparr>ar_left = 0, ar_top = 0, ar_right = 1, ar_bottom = 1\<rparr>" 6 "replicate 6 0"]
  by (simp add: getEncoderInputBufferInfo_def i32_id sdiv_half)

text \<open>
  A frame of odd height overruns a buffer of one and a half bytes per pixel: the chroma
  planes are placed by the rounded size but written with the rows rounded up.
\<close>

theorem odd_height_overruns:
  fixes w h :: nat
  assumes "even w" "4 \<le> w" "odd h" "3 * (w * h) < 2 ^ 31" "length dst = 3 * (w * h) div 2"
  shows "convertDecoderOutputToI420 src sw sh \<lparr>ar_left = 0, ar_top = 0, ar_right = int w - 1, ar_bottom = int h - 1\<rparr> dst = None"
proof -
  obtain w' k where e: "w = 2 * w'" "h = 2 * k + 1" using assms(1,3) by (auto elim!: evenE oddE)
  have "w * 1 \<le> w * h" "1 * h \<le> w * h" by (rule mult_le_mono; use assms(2) e in simp)+
  then have le: "w + 1 < 2 ^ 31" "h + 1 < 2 ^ 31" "w * h < 2 ^ 31" using assms(2,4) by linarith+
  have le': "w' * h \<le> w * h" using e by simp
  have i: "i32 (int w - 1 - 0 + 1) = int w" "i32 (int h - 1 - 0 + 1) = int h" "i32 (int w * int h) = int (w * h)"
    "i32 (int w sdiv 2 * int h) = int (w' * h)" "i32 (int w + 1) = int (w + 1)" "i32 (int h + 1) = int (h + 1)"
    by (rule i32_eq, simp add: sdiv_half e(1), use le le' in linarith)+
  have half: "int (w + 1) sdiv 2 = int w'" "int (h + 1) sdiv 2 = int (k + 1)" "int w sdiv 2 = int w'"
    "int (w' * h) sdiv 2 = int (w' * h div 2)"
    by (simp_all add: sdiv_half e zdiv_int)
  have sz: "size_of (int w) = w" "size_of (int w') = w'" "size_of (int (w * h)) = w * h" "size_of (int (w' * h div 2)) = w' * h div 2"
    by (rule size_of_nat, use le le' e(1) in linarith)+
  have i': "i32 (int w' * int h) = int (w' * h)" using i(4) half(3) by simp
  show ?thesis
  proof (rule ccontr)
    assume "\<not> ?thesis"
    then obtain d1 d2 where d: "luma_rows (nat (int h)) w src sw (int w) (i32 (sw * 0 + 0)) 0 dst = Some d1"
      "split_rows (k + 1) w' src sw (int w') (i32 (sw * 0 + 0) + i32 (sw * (sh - 0 sdiv 2))) (int (w * h)) (int (w * h) + int (w' * h div 2)) d1 = Some d2"
      by (auto simp only: convertDecoderOutputToI420_def Let_def ARect.simps i i' half sz nat_int bind_eq_Some_conv not_None_eq)
    from split_rows_needs [OF d(2)] luma_rows_length [OF d(1)] assms(2) e
    have "w * h + w' * h div 2 + k * w' + w' \<le> length dst" by (auto simp flip: of_nat_mult of_nat_add)
    moreover have "w' * h div 2 = w' * k + w' div 2" "3 * (w * h) div 2 = w * h + w' * h" by (simp_all add: e algebra_simps)
    moreover have "2 \<le> w'" using assms(2) e by simp
    ultimately show False using assms(5) e by (simp add: algebra_simps)
  qed
qed

theorem odd_height_overruns_witness:
  "convertDecoderOutputToI420 (replicate 100 1) 8 8 \<lparr>ar_left = 0, ar_top = 0, ar_right = 3, ar_bottom = 2\<rparr> (replicate 18 0) = None"
  using odd_height_overruns [of 4 3 "replicate 18 0"] by simp

text \<open>
  A frame of odd width mixes the planes: here the V sample of the first pair, 9, is lost, and
  the U sample of the second, 10, stands in its place.
\<close>

lemma odd_width_mixes_planes:
  "convertDecoderOutputToI420 (map word_of_nat [0..<12]) 4 2
      \<lparr>ar_left = 0, ar_top = 0, ar_right = 2, ar_bottom = 1\<rparr> (replicate 9 0) =
    Some (0, [0, 1, 2, 4, 5, 6, 8, 10, 11])"
  by code_simp

end
