(* ===== verification/PosixRuns.thy ===== *)
theory PosixRuns
  imports Posix
begin

text \<open>
  A small logic for code over \<open>Posix\<close>: what events a piece of code adds to the history, whatever
  the kernel does, with one rule for each construct, so that such facts follow the structure of
  the code.
\<close>

section \<open>Runs\<close>

text \<open>
  Loops over input run on fuel; \<open>None\<close> is a run that has not ended yet. \<open>proceed\<close> goes on
  with the result of a part that has ended.
\<close>

definition proceed :: "('s, 'a option) state \<Rightarrow> ('a \<Rightarrow> ('s, 'b option) state) \<Rightarrow> ('s, 'b option) state" where
  "proceed m f = m \<bind> (\<lambda>r. case r of None \<Rightarrow> State_Monad.return None | Some x \<Rightarrow> f x)"

text \<open>
  \<open>gives R m\<close>: from every state, \<open>m\<close> adds events for which, with its result, \<open>R\<close> holds;
  the newest event is first. The rules follow the structure of the code.
\<close>

definition gives :: "('r \<Rightarrow> history \<Rightarrow> bool) \<Rightarrow> ('a sys_scheme, 'r) state \<Rightarrow> bool" where
  "gives R m \<longleftrightarrow> (\<forall>s. \<exists>evs. hist (exec m s) = evs @ hist s \<and> R (result m s) evs)"

named_theorems runs

lemma gives_mono: "gives R m \<Longrightarrow> (\<And>x evs. R x evs \<Longrightarrow> S x evs) \<Longrightarrow> gives S m"
  unfolding gives_def by blast

lemma gives_return: "R x [] \<Longrightarrow> gives R (State_Monad.return x)"
  by (simp add: gives_def)

lemma gives_gets: "(\<And>x. R x []) \<Longrightarrow> gives R (gets f)"
  by (simp add: gives_def)

lemma gives_log: "R () [e] \<Longrightarrow> gives R (log_event e)"
  by (simp add: gives_def log_event_def)

lemma gives_errno: "R () [] \<Longrightarrow> gives R (set_errno e)"
  by (simp add: gives_def set_errno_def)

lemma gives_bind:
  fixes m :: "('a sys_scheme, 'r) state"
  assumes "gives R m" "\<And>x e. R x e \<Longrightarrow> gives (Q x) (f x)" "\<And>x y e1 e2. R x e1 \<Longrightarrow> Q x y e2 \<Longrightarrow> S y (e2 @ e1)"
  shows "gives S (m \<bind> f)"
  unfolding gives_def
proof
  fix s :: "'a sys_scheme"
  obtain e1 where e1: "hist (exec m s) = e1 @ hist s" "R (result m s) e1" using assms(1) unfolding gives_def by blast
  obtain e2 where e2: "hist (exec (f (result m s)) (exec m s)) = e2 @ hist (exec m s)"
    "Q (result m s) (result (f (result m s)) (exec m s)) e2" using assms(2) [OF e1(2)] unfolding gives_def by blast
  from e1 e2 assms(3) [OF e1(2) e2(2)] show "\<exists>evs. hist (exec (m \<bind> f) s) = evs @ hist s \<and> S (result (m \<bind> f) s) evs"
    by (intro exI [of _ "e2 @ e1"]) (simp add: exec_bind result_bind)
qed

text \<open>All new events satisfy \<open>Q\<close>, whatever the result.\<close>

definition emits :: "(sys_event \<Rightarrow> bool) \<Rightarrow> ('a sys_scheme, 'r) state \<Rightarrow> bool" where
  "emits Q m \<longleftrightarrow> gives (\<lambda>_. list_all Q) m"

lemma emits_return [runs]: "emits Q (State_Monad.return x)"
  by (simp add: emits_def gives_return)

lemma emits_gets [runs]: "emits Q (gets f)"
  by (simp add: emits_def gives_gets)

lemma emits_log [runs]: "Q e \<Longrightarrow> emits Q (log_event e)"
  by (simp add: emits_def gives_log)

lemma emits_errno [runs]: "emits Q (set_errno e)"
  by (simp add: emits_def gives_errno)

lemma emits_bind [runs]: "emits Q m \<Longrightarrow> (\<And>x. emits Q (f x)) \<Longrightarrow> emits Q (m \<bind> f)"
  unfolding emits_def by (erule gives_bind) (assumption, simp)

lemma emits_proceed [runs]: "emits Q m \<Longrightarrow> (\<And>x. emits Q (f x)) \<Longrightarrow> emits Q (proceed m f)"
  unfolding proceed_def by (erule emits_bind) (simp add: emits_return split: option.split)

lemma emits_if [runs]: "(b \<Longrightarrow> emits Q m) \<Longrightarrow> (\<not> b \<Longrightarrow> emits Q n) \<Longrightarrow> emits Q (if b then m else n)"
  by simp

lemma emits_whenM [runs]: "(b \<Longrightarrow> emits Q m) \<Longrightarrow> emits Q (whenM b m)"
  by (simp add: whenM_def emits_return)

lemma emits_option [runs]:
  "(x = None \<Longrightarrow> emits Q m) \<Longrightarrow> (\<And>y. x = Some y \<Longrightarrow> emits Q (f y)) \<Longrightarrow> emits Q (case x of None \<Rightarrow> m | Some y \<Rightarrow> f y)"
  by (cases x) simp_all

lemma emits_sum [runs]:
  "(\<And>y. emits Q (f y)) \<Longrightarrow> (\<And>y. emits Q (g y)) \<Longrightarrow> emits Q (case x of Inl y \<Rightarrow> f y | Inr y \<Rightarrow> g y)"
  by (cases x) simp_all

lemma emits_prod [runs]: "(\<And>a b. x = (a, b) \<Longrightarrow> emits Q (f a b)) \<Longrightarrow> emits Q (case x of (a, b) \<Rightarrow> f a b)"
  by (cases x) simp_all

lemma emits_open [runs]: "(\<And>fd. Q (EvOpen p f fd)) \<Longrightarrow> emits Q (sys_open P p f)"
  unfolding sys_open_def by (intro runs)

lemma emits_read [runs]: "(\<And>r. Q (EvRead fd n r)) \<Longrightarrow> emits Q (sys_read P fd n)"
  unfolding sys_read_def by (intro runs)

lemma emits_write [runs]: "(\<And>r. Q (EvWrite fd bs r)) \<Longrightarrow> emits Q (sys_write P fd bs)"
  unfolding sys_write_def by (intro runs)

lemma emits_close [runs]: "Q (EvClose fd) \<Longrightarrow> emits Q (sys_close P fd)"
  unfolding sys_close_def by (intro runs)

lemma emits_mono: "emits Q m \<Longrightarrow> (\<And>e. Q e \<Longrightarrow> Q' e) \<Longrightarrow> emits Q' m"
  unfolding emits_def by (erule gives_mono) (auto simp: list_all_iff)

lemma gives_emits: "emits Q m \<Longrightarrow> (\<And>x evs. list_all Q evs \<Longrightarrow> S x evs) \<Longrightarrow> gives S m"
  unfolding emits_def by (rule gives_mono)

lemma gives_if: "(b \<Longrightarrow> gives R m) \<Longrightarrow> (\<not> b \<Longrightarrow> gives R n) \<Longrightarrow> gives R (if b then m else n)"
  by simp

text \<open>The events a piece of code adds are determined, so two facts about them can be put together.\<close>

lemma gives_conj: "gives R m \<Longrightarrow> gives S m \<Longrightarrow> gives (\<lambda>x evs. R x evs \<and> S x evs) m"
  unfolding gives_def by (metis append_same_eq)

end
