(* ===== verification/Pstore.thy ===== *)
theory Pstore
  imports PosixRuns
begin

text \<open>
  The cleaner of the kernel's crash dumps, \<^verbatim>\<open>pstore/pstore-clean.c\<close>: it looks up a
  rule for each file of the pstore file system, moves the file, keeps it or appends it to a
  common log, removes what it copied and unmounts. The calls it makes are those of \<open>Posix\<close> and
  the ones declared here; the configuration library is a parameter.
\<close>

section \<open>Further system calls and the configuration library\<close>

text \<open>\<open>Some e\<close> is a failure with \<^verbatim>\<open>errno\<close> \<open>e\<close>. Directory entries and lines come from the history.\<close>

record posix_fs = posix +
  px_stat :: "history \<Rightarrow> string \<Rightarrow> int option"
  px_unlink :: "history \<Rightarrow> string \<Rightarrow> int option"
  px_umount :: "history \<Rightarrow> string \<Rightarrow> int option"
  px_rmdir :: "history \<Rightarrow> string \<Rightarrow> int option"
  px_opendir :: "history \<Rightarrow> string \<Rightarrow> int option"
  px_readdir :: "history \<Rightarrow> string option"
  px_fopen :: "history \<Rightarrow> string \<Rightarrow> int option"
  px_fgets :: "history \<Rightarrow> nat \<Rightarrow> string option"
  px_scandir :: "history \<Rightarrow> string \<Rightarrow> int + string list"

text \<open>
  \<^verbatim>\<open>cutils/config_utils.h\<close>: the root node \<^verbatim>\<open>config_node\<close> gives, if any, the
  effect of \<^verbatim>\<open>config_load_file\<close> on it, and the two lookups.
\<close>

record 'c config =
  config_node :: "'c option"
  config_load_file :: "'c \<Rightarrow> string \<Rightarrow> 'c"
  config_find :: "'c \<Rightarrow> string \<Rightarrow> 'c option"
  config_str :: "'c \<Rightarrow> string \<Rightarrow> string option"

text \<open>A call that succeeds with 0 or fails with -1 and an error.\<close>

definition sys_status ::
    "(history \<Rightarrow> string \<Rightarrow> int option) \<Rightarrow> (string \<Rightarrow> int \<Rightarrow> sys_event) \<Rightarrow> string \<Rightarrow> ('a sys_scheme, int) state" where
  "sys_status call ev path = do {
     h \<leftarrow> gets hist;
     (case call h path of
        Some e \<Rightarrow> do { log_event (ev path (- 1)); set_errno e; State_Monad.return (- 1) }
      | None \<Rightarrow> do { log_event (ev path 0); State_Monad.return 0 })
   }"

abbreviation sys_unlink :: "'b posix_fs_scheme \<Rightarrow> string \<Rightarrow> ('a sys_scheme, int) state" where
  "sys_unlink P \<equiv> sys_status (px_unlink P) EvUnlink"

abbreviation sys_umount :: "'b posix_fs_scheme \<Rightarrow> string \<Rightarrow> ('a sys_scheme, int) state" where
  "sys_umount P \<equiv> sys_status (px_umount P) EvUmount"

abbreviation sys_rmdir :: "'b posix_fs_scheme \<Rightarrow> string \<Rightarrow> ('a sys_scheme, int) state" where
  "sys_rmdir P \<equiv> sys_status (px_rmdir P) EvRmdir"

section \<open>Constants and small routines\<close>

definition MNT :: string where "MNT = ''/dev/pstore''"
definition DST :: string where "DST = ''/data/dontpanic/apanic_console''"
definition BUFFER_SIZE :: nat where "BUFFER_SIZE = 4096"
definition PSTORE_CLEAN_VENDOR_CONFIG_FILE :: string where
  "PSTORE_CLEAN_VENDOR_CONFIG_FILE = ''/vendor/etc/pstore-clean.conf''"

text \<open>System constants: sizes of path buffers and a page, flags of \<^verbatim>\<open>open\<close>.\<close>

definition PATH_MAX :: nat where "PATH_MAX = 4096"
definition FILENAME_MAX :: nat where "FILENAME_MAX = 4096"
definition PAGE_SIZE :: nat where "PAGE_SIZE = 4096"
definition O_CREAT :: nat where "O_CREAT = 64"
definition O_TRUNC :: nat where "O_TRUNC = 512"
definition O_APPEND :: nat where "O_APPEND = 1024"

datatype pstore_action = DEFAULT | KEEP | MOVE

definition file_exists :: "'b posix_fs_scheme \<Rightarrow> string \<Rightarrow> ('a sys_scheme, bool) state" where
  "file_exists P filename = do { r \<leftarrow> sys_status (px_stat P) EvStat filename; State_Monad.return (r = 0) }"

fun copy_loop :: "'b posix_fs_scheme \<Rightarrow> nat \<Rightarrow> int \<Rightarrow> int \<Rightarrow> ('a sys_scheme, int option) state" where
  "copy_loop P 0 srcfd dstfd = State_Monad.return None"
| "copy_loop P (Suc fuel) srcfd dstfd = do {
     r \<leftarrow> sys_read P srcfd BUFFER_SIZE;
     (case r of
        None \<Rightarrow> do { sys_close P srcfd; State_Monad.return (Some (- 1)) }
      | Some buffer \<Rightarrow> do {
          write_ret \<leftarrow> sys_write P dstfd buffer;
          if write_ret = - 1 then do { sys_close P srcfd; State_Monad.return (Some (- 1)) }
          else if 0 < length buffer \<and> 0 < write_ret then copy_loop P fuel srcfd dstfd
          else do { sys_close P srcfd; State_Monad.return (Some 0) }
        })
   }"

definition filecopy :: "'b posix_fs_scheme \<Rightarrow> nat \<Rightarrow> string \<Rightarrow> int \<Rightarrow> ('a sys_scheme, int option) state" where
  "filecopy P fuel srcfile dstfd = do {
     srcfd \<leftarrow> sys_open P srcfile O_RDONLY;
     if srcfd = - 1 then State_Monad.return (Some (- 1)) else copy_loop P fuel srcfd dstfd
   }"

fun readdir_loop :: "'b posix_fs_scheme \<Rightarrow> nat \<Rightarrow> ('a sys_scheme, int option) state" where
  "readdir_loop P 0 = State_Monad.return None"
| "readdir_loop P (Suc fuel) = do {
     h \<leftarrow> gets hist;
     log_event (EvReaddir (px_readdir P h));
     (case px_readdir P h of
        None \<Rightarrow> do { log_event EvClosedir; State_Monad.return (Some 0) }
      | Some name \<Rightarrow>
          if name \<noteq> ''.'' \<and> name \<noteq> ''..'' then do { log_event EvClosedir; State_Monad.return (Some 1) }
          else readdir_loop P fuel)
   }"

definition dir_not_empty :: "'b posix_fs_scheme \<Rightarrow> nat \<Rightarrow> string \<Rightarrow> ('a sys_scheme, int option) state" where
  "dir_not_empty P fuel path = do {
     h \<leftarrow> gets hist;
     log_event (EvOpendir path (px_opendir P h path = None));
     (case px_opendir P h path of
        Some e \<Rightarrow> do { set_errno e; State_Monad.return (Some (- 1)) }
      | None \<Rightarrow> readdir_loop P fuel)
   }"

definition strstr :: "string \<Rightarrow> string \<Rightarrow> bool" where
  "strstr s t = list_ex (\<lambda>i. take (length t) (drop i s) = t) [0..<Suc (length s)]"

fun mounts_loop :: "'b posix_fs_scheme \<Rightarrow> nat \<Rightarrow> string \<Rightarrow> ('a sys_scheme, int option) state" where
  "mounts_loop P 0 path = State_Monad.return None"
| "mounts_loop P (Suc fuel) path = do {
     h \<leftarrow> gets hist;
     log_event (EvFgets (px_fgets P h PAGE_SIZE));
     (case px_fgets P h PAGE_SIZE of
        None \<Rightarrow> State_Monad.return (Some 0)
      | Some part \<Rightarrow> if strstr part path then State_Monad.return (Some 1) else mounts_loop P fuel path)
   }"

definition is_fs_mounted :: "'b posix_fs_scheme \<Rightarrow> nat \<Rightarrow> string \<Rightarrow> ('a sys_scheme, int option) state" where
  "is_fs_mounted P fuel path = do {
     h \<leftarrow> gets hist;
     log_event (EvFopen ''/proc/mounts'' (px_fopen P h ''/proc/mounts'' = None));
     (case px_fopen P h ''/proc/mounts'' of
        Some e \<Rightarrow> do { set_errno e; State_Monad.return (Some 0) }
      | None \<Rightarrow> proceed (mounts_loop P fuel path) (\<lambda>r. do { log_event EvFclose; State_Monad.return (Some r) }))
   }"

section \<open>Rules\<close>

text \<open>
  The loop of \<^verbatim>\<open>getbasefilename\<close>; the argument holds the characters before the
  terminator of \<^verbatim>\<open>filename\<close>. It gives the last separator, the buffer and the length.
\<close>

definition char_at :: "string \<Rightarrow> nat \<Rightarrow> char" where
  "char_at s i = (if i < length s then s ! i else CHR 0x00)"

function base_loop :: "string \<Rightarrow> nat \<Rightarrow> nat \<Rightarrow> nat \<Rightarrow> string \<Rightarrow> nat \<times> string \<times> nat" where
  "base_loop filename maxlen i lastoccurance basefilename =
     (if i < maxlen then
        (let lastoccurance' = (if char_at filename i = CHR ''-'' then i else lastoccurance);
             basefilename' = basefilename[i := char_at filename i]
         in if char_at filename i = CHR 0x00 then (lastoccurance', basefilename', i)
            else base_loop filename maxlen (i + 1) lastoccurance' basefilename')
      else (lastoccurance, basefilename, maxlen))"
  by pat_completeness auto
termination by (relation "measure (\<lambda>(f, m, i, l, b). m - i)") auto

declare base_loop.simps [simp del]

definition getbasefilename :: "string \<Rightarrow> string \<Rightarrow> nat \<Rightarrow> nat \<times> string" where
  "getbasefilename filename basefilename maxlen =
     (let (lastoccurance, basefilename, filename_len) = base_loop filename maxlen 0 0 basefilename in
      if lastoccurance \<noteq> 0 \<and> is_digit (char_at filename (lastoccurance + 1))
      then (lastoccurance, basefilename[lastoccurance := CHR 0x00])
      else (filename_len, basefilename))"

text \<open>The result, and \<^verbatim>\<open>*action\<close> and \<^verbatim>\<open>*dstpath\<close> after the call.\<close>

definition perform_rule_check ::
    "('c, 'd) config_scheme \<Rightarrow> 'c option \<Rightarrow> string \<Rightarrow> pstore_action \<Rightarrow> string \<Rightarrow> int \<times> pstore_action \<times> string" where
  "perform_rule_check C rootnode filename action dstpath =
     (case rootnode of
        None \<Rightarrow> (- 1, action, dstpath)
      | Some rootnode \<Rightarrow>
          (case config_find C rootnode filename of
             None \<Rightarrow> (- 1, action, dstpath)
           | Some node \<Rightarrow>
               (case config_str C node ''action'' of
                  None \<Rightarrow> (- 1, action, dstpath)
                | Some action_str \<Rightarrow>
                    if action_str = ''move'' then
                      (0, MOVE, case config_str C node ''destination'' of None \<Rightarrow> ''/dev/null'' | Some d \<Rightarrow> d)
                    else if action_str = ''keep'' then (0, KEEP, dstpath)
                    else (0, DEFAULT, dstpath))))"

section \<open>The program\<close>

definition srcpath :: "string \<Rightarrow> string" where
  "srcpath name = snd (snprintf PATH_MAX (MNT @ ''/'' @ name))"

text \<open>What one round of the loop does to one file: whether it goes on, and \<^verbatim>\<open>dstfd\<close>.\<close>

definition rule_of :: "('c, 'd) config_scheme \<Rightarrow> 'c option \<Rightarrow> string \<Rightarrow> pstore_action \<times> string" where
  "rule_of C rulesroot name =
     (let basefile = cstr (snd (getbasefilename name (replicate FILENAME_MAX (CHR 0x00)) FILENAME_MAX));
          (ret, action, dstpath) = perform_rule_check C rulesroot basefile DEFAULT []
      in (if ret \<noteq> 0 then DEFAULT else action, dstpath))"

definition remove_src :: "'b posix_fs_scheme \<Rightarrow> string \<Rightarrow> int \<Rightarrow> ('a sys_scheme, (bool \<times> int) option) state" where
  "remove_src P name dstfd = do {
     r \<leftarrow> sys_unlink P (srcpath name);
     State_Monad.return (Some (r = 0, dstfd))
   }"

definition move_file :: "'b posix_fs_scheme \<Rightarrow> nat \<Rightarrow> string \<Rightarrow> string \<Rightarrow> int \<Rightarrow> ('a sys_scheme, (bool \<times> int) option) state" where
  "move_file P fuel dstpath name dstfd = do {
     fd \<leftarrow> sys_open P (snd (snprintf PATH_MAX (dstpath @ ''/'' @ name))) (O_CREAT OR O_TRUNC OR O_WRONLY);
     if fd < 0 then remove_src P name dstfd
     else proceed (filecopy P fuel (srcpath name) fd) (\<lambda>r. do { sys_close P fd; remove_src P name dstfd })
   }"

definition log_file :: "'b posix_fs_scheme \<Rightarrow> nat \<Rightarrow> string \<Rightarrow> int \<Rightarrow> ('a sys_scheme, (bool \<times> int) option) state" where
  "log_file P fuel name dstfd0 = do {
     dstfd \<leftarrow> (if dstfd0 = - 1 then sys_open P DST (O_CREAT OR O_APPEND OR O_WRONLY) else State_Monad.return dstfd0);
     if dstfd0 = - 1 \<and> dstfd < 0 then State_Monad.return (Some (False, dstfd))
     else do {
       sys_write P dstfd (snd (snprintf PATH_MAX (''------ '' @ name @ '' ------'' @ [CHR 0x0A])));
       proceed (filecopy P fuel (srcpath name) dstfd) (\<lambda>r. remove_src P name dstfd)
     }
   }"

definition clean_file ::
    "'b posix_fs_scheme \<Rightarrow> ('c, 'd) config_scheme \<Rightarrow> nat \<Rightarrow> 'c option \<Rightarrow> int \<Rightarrow> string \<Rightarrow> ('a sys_scheme, (bool \<times> int) option) state" where
  "clean_file P C fuel rulesroot dstfd name =
     (let (action, dstpath) = rule_of C rulesroot name in
      case action of
        MOVE \<Rightarrow> move_file P fuel dstpath name dstfd
      | KEEP \<Rightarrow> State_Monad.return (Some (True, dstfd))
      | DEFAULT \<Rightarrow> log_file P fuel name dstfd)"

text \<open>The loop, over the list from its end; it stops where a file cannot be removed.\<close>

fun clean_files ::
    "'b posix_fs_scheme \<Rightarrow> ('c, 'd) config_scheme \<Rightarrow> nat \<Rightarrow> 'c option \<Rightarrow> int \<Rightarrow> string list \<Rightarrow> ('a sys_scheme, (bool \<times> int) option) state" where
  "clean_files P C fuel rulesroot dstfd [] = State_Monad.return (Some (True, dstfd))"
| "clean_files P C fuel rulesroot dstfd (name # names) =
     (if name = ''.'' \<or> name = ''..'' then clean_files P C fuel rulesroot dstfd names
      else proceed (clean_file P C fuel rulesroot dstfd name) (\<lambda>(ok, dstfd).
        if ok then clean_files P C fuel rulesroot dstfd names else State_Monad.return (Some (False, dstfd))))"

text \<open>The labels the program jumps to, with the value of \<^verbatim>\<open>dstfd\<close>.\<close>

datatype exit_label = Done | Error3 int | Error2 int | Error1

definition load_rules :: "('c, 'd) config_scheme \<Rightarrow> ('a sys_scheme, 'c option \<times> 'c option) state" where
  "load_rules C =
     (case config_node C of
        None \<Rightarrow> State_Monad.return (None, None)
      | Some root0 \<Rightarrow> do {
          log_event (EvConfigLoad PSTORE_CLEAN_VENDOR_CONFIG_FILE);
          (let rootnode = config_load_file C root0 PSTORE_CLEAN_VENDOR_CONFIG_FILE in
           State_Monad.return (Some rootnode, config_find C rootnode ''pstore_rules''))
        })"

definition list_files :: "'b posix_fs_scheme \<Rightarrow> string \<Rightarrow> ('a sys_scheme, string list) state" where
  "list_files P path = do {
     h \<leftarrow> gets hist;
     (case px_scandir P h path of
        Inl e \<Rightarrow> do { log_event (EvScandir path None); set_errno e; State_Monad.return [] }
      | Inr names \<Rightarrow> do { log_event (EvScandir path (Some names)); State_Monad.return names })
   }"

definition clean_all :: "'b posix_fs_scheme \<Rightarrow> ('c, 'd) config_scheme \<Rightarrow> nat \<Rightarrow> 'c option \<Rightarrow> ('a sys_scheme, exit_label option) state" where
  "clean_all P C fuel rulesroot = do {
     exists \<leftarrow> file_exists P DST;
     removed \<leftarrow> (if exists then do { r \<leftarrow> sys_unlink P DST; State_Monad.return (r = 0) } else State_Monad.return True);
     if \<not> removed then State_Monad.return (Some (Error2 (- 1)))
     else do {
       namelist \<leftarrow> list_files P MNT;
       if length namelist < 1 then State_Monad.return (Some (Error2 (- 1)))
       else proceed (clean_files P C fuel rulesroot (- 1) (rev namelist)) (\<lambda>(ok, dstfd).
         State_Monad.return (Some (if ok then Done else Error3 dstfd)))
     }
   }"

definition clean_pstore :: "'b posix_fs_scheme \<Rightarrow> ('c, 'd) config_scheme \<Rightarrow> nat \<Rightarrow> 'c option \<Rightarrow> ('a sys_scheme, exit_label option) state" where
  "clean_pstore P C fuel rulesroot =
     proceed (is_fs_mounted P fuel MNT) (\<lambda>mounted.
       if mounted = 0 then State_Monad.return (Some Error1)
       else proceed (dir_not_empty P fuel MNT) (\<lambda>status.
         if status = - 1 then State_Monad.return (Some (Error2 (- 1)))
         else if status = 0 then State_Monad.return (Some Done)
         else clean_all P C fuel rulesroot))"

text \<open>From \<^verbatim>\<open>error1\<close> to the end, and the labels before it.\<close>

definition error1 :: "'b posix_fs_scheme \<Rightarrow> bool \<Rightarrow> ('a sys_scheme, int) state" where
  "error1 P rootnode = do {
     whenM rootnode (log_event EvConfigFree);
     sys_rmdir P MNT;
     State_Monad.return (- 1)
   }"

definition jump :: "'b posix_fs_scheme \<Rightarrow> bool \<Rightarrow> exit_label \<Rightarrow> ('a sys_scheme, int) state" where
  "jump P rootnode label =
     (let error2 = (\<lambda>dstfd. do { whenM (0 \<le> dstfd) (sys_close P dstfd); sys_umount P MNT; error1 P rootnode })
      in case label of
        Done \<Rightarrow> do {
          r \<leftarrow> sys_umount P MNT;
          if r \<noteq> 0 then error1 P rootnode
          else do {
            whenM rootnode (log_event EvConfigFree);
            sys_rmdir P MNT;
            State_Monad.return 0
          }
        }
      | Error3 dstfd \<Rightarrow> error2 dstfd
      | Error2 dstfd \<Rightarrow> error2 dstfd
      | Error1 \<Rightarrow> error1 P rootnode)"

definition main :: "'b posix_fs_scheme \<Rightarrow> ('c, 'd) config_scheme \<Rightarrow> nat \<Rightarrow> ('a sys_scheme, int option) state" where
  "main P C fuel = do {
     log_event (EvUmask 23);
     (rootnode, rulesroot) \<leftarrow> load_rules C;
     proceed (clean_pstore P C fuel rulesroot) (\<lambda>label. do {
       r \<leftarrow> jump P (rootnode \<noteq> None) label;
       State_Monad.return (Some r)
     })
   }"

section \<open>The base name\<close>

text \<open>
  What the base name is meant to be: the name without the text from its last separator on,
  where that text starts with a digit and something stands before it.
\<close>

definition base_name :: "string \<Rightarrow> string" where
  "base_name f =
     (let r = rev (takeWhile (\<lambda>c. c \<noteq> CHR ''-'') (rev f)); p = take (length f - length r - 1) f in
      if CHR ''-'' \<in> set f \<and> p \<noteq> [] \<and> r \<noteq> [] \<and> is_digit (hd r) then p else f)"

definition last_sep :: "string \<Rightarrow> nat" where
  "last_sep f = length f - length (takeWhile (\<lambda>c. c \<noteq> CHR ''-'') (rev f)) - 1"

lemma last_sep_at: "i < length f \<Longrightarrow> f ! i = CHR ''-'' \<Longrightarrow> CHR ''-'' \<notin> set (drop (Suc i) f) \<Longrightarrow> last_sep f = i"
proof -
  assume i: "i < length f" "f ! i = CHR ''-''" "CHR ''-'' \<notin> set (drop (Suc i) f)"
  have "rev f = rev (drop (Suc i) f) @ CHR ''-'' # rev (take i f)"
    using i(1,2) by (metis id_take_nth_drop rev.simps(2) rev_append append.assoc append_Cons append_Nil)
  moreover have "takeWhile (\<lambda>c. c \<noteq> CHR ''-'') (rev (drop (Suc i) f) @ CHR ''-'' # rev (take i f)) = rev (drop (Suc i) f)"
    using i(3) by (subst takeWhile_append2) auto
  ultimately show ?thesis using i(1) by (simp add: last_sep_def)
qed

lemma base_loop_run:
  assumes "CHR 0x00 \<notin> set f" "length f < m" "m \<le> length b" "i \<le> length f"
  shows "base_loop f m i l b = (if CHR ''-'' \<in> set (drop i f) then last_sep f else l,
     take i b @ drop i f @ CHR 0x00 # drop (Suc (length f)) b, length f)"
  using assms
proof (induction "length f - i" arbitrary: i l b)
  case 0
  then have "i = length f" by simp
  with 0 show ?case
    by (subst base_loop.simps) (simp add: char_at_def upd_conv_take_nth_drop)
next
  case (Suc n)
  then have i: "i < length f" by simp
  then have d: "drop i f = f ! i # drop (Suc i) f" by (simp add: Cons_nth_drop_Suc)
  have nz: "f ! i \<noteq> CHR 0x00" using Suc.prems(1) i by (metis nth_mem)
  have "base_loop f m i l b = base_loop f m (Suc i) (if f ! i = CHR ''-'' then i else l) (b[i := f ! i])"
    using i nz Suc.prems by (subst base_loop.simps) (simp add: char_at_def)
  also have "\<dots> = (if CHR ''-'' \<in> set (drop (Suc i) f) then last_sep f else if f ! i = CHR ''-'' then i else l,
      take (Suc i) (b[i := f ! i]) @ drop (Suc i) f @ CHR 0x00 # drop (Suc (length f)) (b[i := f ! i]), length f)"
    using Suc i by (intro Suc.hyps(1)) auto
  also have "take (Suc i) (b[i := f ! i]) = take i b @ [f ! i]"
    using i Suc.prems by (simp add: take_Suc_conv_app_nth)
  finally show ?case using last_sep_at [OF i] i by (auto simp: d)
qed

lemma cstr_terminated: "CHR 0x00 \<notin> set f \<Longrightarrow> cstr (f @ CHR 0x00 # r) = f"
  unfolding cstr_def by (subst takeWhile_append2) auto

lemma last_sep_split:
  assumes "CHR ''-'' \<in> set f"
  shows "f = take (last_sep f) f @ CHR ''-'' # rev (takeWhile (\<lambda>c. c \<noteq> CHR ''-'') (rev f))" "last_sep f < length f"
proof -
  obtain p z where f: "f = p @ CHR ''-'' # z" "CHR ''-'' \<notin> set z" using split_list_last [OF assms] by blast
  have "takeWhile (\<lambda>c. c \<noteq> CHR ''-'') (rev z @ CHR ''-'' # rev p) = rev z"
    using f(2) by (subst takeWhile_append2) auto
  then have t: "takeWhile (\<lambda>c. c \<noteq> CHR ''-'') (rev f) = rev z" using f(1) by simp
  then have "last_sep f = length p" using f(1) by (simp add: last_sep_def)
  with t f(1) show "f = take (last_sep f) f @ CHR ''-'' # rev (takeWhile (\<lambda>c. c \<noteq> CHR ''-'') (rev f))" "last_sep f < length f"
    by simp_all
qed

lemma getbasefilename_is_base_name:
  assumes "CHR 0x00 \<notin> set f" "length f < m" "m \<le> length b" "getbasefilename f b m = (n, b')"
  shows "cstr b' = base_name f \<and> n = length (base_name f)"
proof -
  have run: "base_loop f m 0 0 b = (if CHR ''-'' \<in> set f then last_sep f else 0, f @ CHR 0x00 # drop (Suc (length f)) b, length f)"
    using base_loop_run [OF assms(1-3), of 0 0] by simp
  let ?r = "rev (takeWhile (\<lambda>c. c \<noteq> CHR ''-'') (rev f))"
  show ?thesis
  proof (cases "CHR ''-'' \<in> set f")
    case False
    then show ?thesis
      using assms run by (auto simp: getbasefilename_def base_name_def cstr_terminated)
  next
    case True
    let ?k = "last_sep f"
    note sp = last_sep_split [OF True]
    have p: "take (length f - length ?r - 1) f = take ?k f" by (simp add: last_sep_def)
    have pn: "take ?k f \<noteq> [] \<longleftrightarrow> ?k \<noteq> 0" using sp(2) by auto
    have len: "length f = ?k + 1 + length ?r" using arg_cong [OF sp(1), of length] sp(2) by simp
    have at: "char_at f (?k + 1) = (if ?r = [] then CHR 0x00 else hd ?r)"
    proof (cases "?r = []")
      case True
      then show ?thesis using len by (simp add: char_at_def)
    next
      case False
      have "f ! (?k + 1) = (take ?k f @ CHR ''-'' # ?r) ! (?k + 1)" using sp(1) by simp
      also have "\<dots> = ?r ! 0" using sp(2) by (simp add: nth_append)
      finally show ?thesis using False len by (simp add: char_at_def hd_conv_nth)
    qed
    have dig: "is_digit (char_at f (Suc ?k)) \<longleftrightarrow> takeWhile (\<lambda>c. c \<noteq> CHR ''-'') (rev f) \<noteq> [] \<and> is_digit (hd ?r)"
      using at by (simp add: is_digit_def)
    have upd: "(f @ CHR 0x00 # x)[?k := CHR 0x00] = take ?k f @ CHR 0x00 # drop (Suc ?k) f @ CHR 0x00 # x" for x
      using sp(2) by (simp add: upd_conv_take_nth_drop)
    have nz: "CHR 0x00 \<notin> set (take ?k f)" using assms(1) by (meson in_set_takeD)
    show ?thesis
      using assms(1,4) run True sp(2) unfolding getbasefilename_def base_name_def Let_def p
      by (auto simp: dig pn upd cstr_terminated nz split: if_splits)
  qed
qed

section \<open>What a run of the cleaner adds to the history\<close>

lemma emits_status [runs]: "(\<And>r. Q (ev p r)) \<Longrightarrow> emits Q (sys_status call ev p)"
  unfolding sys_status_def by (intro runs)

lemma emits_copy_loop:
  "(\<And>n r. Q (EvRead srcfd n r)) \<Longrightarrow> (\<And>bs r. Q (EvWrite dstfd bs r)) \<Longrightarrow> Q (EvClose srcfd) \<Longrightarrow> emits Q (copy_loop P fuel srcfd dstfd)"
  by (induction fuel) (auto intro!: runs)

text \<open>Events of the cleaner that remove or unmount nothing.\<close>

fun harmless :: "sys_event \<Rightarrow> bool" where
  "harmless (EvUnlink p r) = False"
| "harmless (EvUmount p r) = False"
| "harmless (EvRmdir p r) = False"
| "harmless EvConfigFree = False"
| "harmless (EvScandir p r) = False"
| "harmless _ = True"

lemma emits_filecopy: "emits harmless (filecopy P fuel p fd)"
  unfolding filecopy_def by (intro runs emits_copy_loop) simp_all

lemma emits_loops: "emits harmless (mounts_loop P fuel p)" "emits harmless (readdir_loop P fuel)"
  by (induction fuel) (auto intro!: runs)

lemma emits_mounted: "emits harmless (is_fs_mounted P fuel p)"
  unfolding is_fs_mounted_def by (intro runs emits_loops) simp_all

lemma emits_dir_not_empty: "emits harmless (dir_not_empty P fuel p)"
  unfolding dir_not_empty_def by (intro runs emits_loops) simp_all

lemma emits_load_rules: "emits harmless (load_rules C)"
  unfolding load_rules_def Let_def by (intro runs) simp_all

text \<open>The rules the program works with.\<close>

definition rules :: "('c, 'd) config_scheme \<Rightarrow> 'c option" where
  "rules C = (case config_node C of None \<Rightarrow> None
     | Some n \<Rightarrow> config_find C (config_load_file C n PSTORE_CLEAN_VENDOR_CONFIG_FILE) ''pstore_rules'')"

definition kept :: "('c, 'd) config_scheme \<Rightarrow> 'c option \<Rightarrow> string \<Rightarrow> bool" where
  "kept C rs name \<longleftrightarrow> name = ''.'' \<or> name = ''..'' \<or> fst (rule_of C rs name) = KEEP"

text \<open>The events of the cleaning itself: harmless ones, and removals of files that are not kept.\<close>

definition removal :: "('c, 'd) config_scheme \<Rightarrow> 'c option \<Rightarrow> sys_event \<Rightarrow> bool" where
  "removal C rs e \<longleftrightarrow> harmless e \<or> (\<exists>p r. e = EvUnlink p r \<and> (p = DST \<or> (\<exists>n. \<not> kept C rs n \<and> p = srcpath n)))"

lemma harmless_removal: "harmless e \<Longrightarrow> removal C rs e"
  by (simp add: removal_def)

lemma gives_proceed:
  assumes "gives R m" "\<And>x. gives (Q x) (f x)" "\<And>e. R None e \<Longrightarrow> S None e"
    and "\<And>x y e1 e2. R (Some x) e1 \<Longrightarrow> Q x y e2 \<Longrightarrow> S y (e2 @ e1)"
  shows "gives S (proceed m f)"
  unfolding proceed_def
  by (rule gives_bind [OF assms(1), where Q = "\<lambda>r y e. case r of None \<Rightarrow> y = None \<and> e = [] | Some x \<Rightarrow> Q x y e"])
    (auto split: option.splits intro: gives_return assms)

definition removed :: "('c, 'd) config_scheme \<Rightarrow> 'c option \<Rightarrow> string list \<Rightarrow> (bool \<times> int) option \<Rightarrow> history \<Rightarrow> bool" where
  "removed C rs names r evs \<longleftrightarrow> list_all (removal C rs) evs \<and>
     (case r of Some (True, fd) \<Rightarrow> \<forall>n\<in>set names. kept C rs n \<or> EvUnlink (srcpath n) 0 \<in> set evs | _ \<Rightarrow> True)"

lemma gives_status: "(\<And>k. R k [ev p k]) \<Longrightarrow> gives R (sys_status call ev p)"
  unfolding gives_def sys_status_def exec_def result_def
  by (auto simp: log_event_def set_errno_def split: option.split)

lemma gives_remove_src: "\<not> kept C rs name \<Longrightarrow> gives (removed C rs [name]) (remove_src P name fd)"
  unfolding remove_src_def
  by (rule gives_bind [OF gives_status gives_return, where R = "\<lambda>k evs. evs = [EvUnlink (srcpath name) k]" and Q = "\<lambda>k y evs. y = Some (k = 0, fd) \<and> evs = []"])
    (auto simp: removed_def removal_def split: bool.split)

text \<open>Harmless code before the removal changes nothing about it.\<close>

lemma gives_removed_after:
  assumes "emits harmless m" "\<And>x. gives (removed C rs names) (f x)"
  shows "gives (removed C rs names) (m \<bind> f)"
  using assms(1) unfolding emits_def
  by (rule gives_bind [OF _ assms(2)]) (auto simp: removed_def list_all_iff harmless_removal split: option.splits bool.splits)

lemma gives_removed_proceed:
  assumes "emits harmless m" "\<And>x. gives (removed C rs names) (f x)"
  shows "gives (removed C rs names) (proceed m f)"
  using assms(1) unfolding emits_def
  by (rule gives_proceed [OF _ assms(2)]) (auto simp: removed_def list_all_iff harmless_removal split: option.splits bool.splits)

lemma gives_clean_file: "\<not> kept C rs name \<Longrightarrow> gives (removed C rs [name]) (clean_file P C fuel rs fd name)"
proof -
  assume k: "\<not> kept C rs name"
  obtain act dst where r: "rule_of C rs name = (act, dst)" by (cases "rule_of C rs name")
  with k have "act \<noteq> KEEP" by (auto simp: kept_def)
  moreover have "gives (removed C rs [name]) (move_file P fuel dst name fd)"
    unfolding move_file_def
    by (intro gives_removed_after emits_open)
      (auto intro!: gives_removed_proceed gives_removed_after emits_filecopy emits_close gives_remove_src [OF k])
  moreover have "gives (removed C rs [name]) (log_file P fuel name fd)"
    unfolding log_file_def
    by (intro gives_removed_after)
      (auto intro!: gives_removed_proceed gives_removed_after emits_filecopy emits_write emits_open emits_return
        gives_remove_src [OF k] gives_return simp: removed_def)
  ultimately show ?thesis by (cases act) (simp_all add: clean_file_def r)
qed

lemma kept_clean_file: "kept C rs name \<Longrightarrow> name \<noteq> ''.'' \<Longrightarrow> name \<noteq> ''..'' \<Longrightarrow> clean_file P C fuel rs fd name = State_Monad.return (Some (True, fd))"
  by (auto simp: kept_def clean_file_def split: prod.split)

lemma gives_clean_files: "gives (removed C rs names) (clean_files P C fuel rs fd names)"
proof (induction names arbitrary: fd)
  case Nil
  show ?case by (simp add: gives_return removed_def)
next
  case (Cons name names)
  show ?case
  proof (cases "kept C rs name")
    case True
    then have "removed C rs names x evs \<Longrightarrow> removed C rs (name # names) x evs" for x evs
      by (auto simp: removed_def split: option.splits bool.splits)
    with True show ?thesis
      by (auto simp: kept_clean_file proceed_def intro!: gives_mono [OF Cons])
  next
    case False
    then have nd: "\<not> (name = ''.'' \<or> name = ''..'')" by (auto simp: kept_def)
    show ?thesis unfolding clean_files.simps if_not_P [OF nd]
    proof (rule gives_proceed [OF gives_clean_file [OF False], where
          Q = "\<lambda>x y e. if fst x then removed C rs names y e else y = Some (False, snd x) \<and> e = []"], goal_cases)
      case (1 x)
      show ?case by (cases x) (auto intro: Cons gives_return)
    next
      case (2 e)
      then show ?case by (simp add: removed_def)
    next
      case (3 x y e1 e2)
      then show ?case
        by (cases x) (auto simp: removed_def list_all_iff split: option.splits bool.splits if_splits)
    qed
  qed
qed

definition cleaned :: "('c, 'd) config_scheme \<Rightarrow> 'c option \<Rightarrow> history \<Rightarrow> bool" where
  "cleaned C rs evs \<longleftrightarrow> (\<forall>names. EvScandir MNT (Some names) \<in> set evs \<longrightarrow>
     (\<forall>n\<in>set names. kept C rs n \<or> EvUnlink (srcpath n) 0 \<in> set evs))"

definition body_event :: "('c, 'd) config_scheme \<Rightarrow> 'c option \<Rightarrow> sys_event \<Rightarrow> bool" where
  "body_event C rs e \<longleftrightarrow> removal C rs e \<or> (\<exists>ns. e = EvScandir MNT ns)"

definition body :: "('c, 'd) config_scheme \<Rightarrow> 'c option \<Rightarrow> exit_label option \<Rightarrow> history \<Rightarrow> bool" where
  "body C rs r evs \<longleftrightarrow> list_all (body_event C rs) evs \<and> (r = Some Done \<longrightarrow> cleaned C rs evs)"

lemma removal_no_scan: "removal C rs e \<Longrightarrow> e \<noteq> EvScandir p ns"
  by (auto simp: removal_def)

lemma cleaned_after: "list_all (removal C rs) e1 \<Longrightarrow> cleaned C rs e2 \<Longrightarrow> cleaned C rs (e2 @ e1)"
  unfolding cleaned_def list_all_iff set_append by (blast dest: removal_no_scan)

lemma body_after: "list_all (removal C rs) e1 \<Longrightarrow> body C rs r e2 \<Longrightarrow> body C rs r (e2 @ e1)"
  using cleaned_after [of C rs e1 e2] by (auto simp: body_def body_event_def list_all_iff)

lemma gives_body_after:
  assumes "emits (removal C rs) m" "\<And>x. gives (body C rs) (f x)"
  shows "gives (body C rs) (m \<bind> f)"
  using assms(1) unfolding emits_def by (rule gives_bind [OF _ assms(2)]) (rule body_after)

lemma gives_body_proceed:
  assumes "emits harmless m" "\<And>x. gives (body C rs) (f x)"
  shows "gives (body C rs) (proceed m f)"
proof -
  have "emits (removal C rs) m" using assms(1) by (rule emits_mono) (rule harmless_removal)
  then show ?thesis unfolding emits_def
  proof (rule gives_proceed [OF _ assms(2)])
    show "list_all (removal C rs) e \<Longrightarrow> body C rs None e" for e
      by (auto simp: body_def body_event_def list_all_iff)
  qed (rule body_after)
qed

lemma body_return: "l \<noteq> Done \<Longrightarrow> gives (body C rs) (State_Monad.return (Some l))"
  by (rule gives_return) (simp add: body_def)

lemma gives_list_files: "gives (\<lambda>names evs. evs = [EvScandir p (Some names)] \<or> names = [] \<and> evs = [EvScandir p None]) (list_files P p)"
  unfolding gives_def list_files_def exec_def result_def
  by (auto simp: log_event_def set_errno_def split: sum.split)

lemma gives_clean_all: "gives (body C rs) (clean_all P C fuel rs)"
proof -
  have rest: "gives (body C rs) (list_files P MNT \<bind> (\<lambda>namelist.
      if length namelist < 1 then State_Monad.return (Some (Error2 (- 1)))
      else proceed (clean_files P C fuel rs (- 1) (rev namelist)) (\<lambda>(ok, dstfd).
        State_Monad.return (Some (if ok then Done else Error3 dstfd)))))"
  proof (rule gives_bind [OF gives_list_files, where Q = "\<lambda>names r e.
      list_all (removal C rs) e \<and> (r = Some Done \<longrightarrow> (\<forall>n\<in>set names. kept C rs n \<or> EvUnlink (srcpath n) 0 \<in> set e))"], goal_cases)
    case (1 names)
    show ?case
    proof (cases "length names < 1")
      case True
      then show ?thesis by (auto intro!: gives_return)
    next
      case False
      then show ?thesis unfolding if_not_P [OF False]
        by (intro gives_proceed [OF gives_clean_files, where Q = "\<lambda>x y e. e = [] \<and> y = Some (if fst x then Done else Error3 (snd x))"])
          (auto simp: removed_def intro!: gives_return split: bool.splits)
    qed
  next
    case (2 names r e1 e2)
    then show ?case
      by (auto simp: body_def body_event_def cleaned_def list_all_iff dest: removal_no_scan)
  qed
  have un: "emits (removal C rs) (sys_unlink P DST \<bind> (\<lambda>r. State_Monad.return (r = 0)))"
    by (intro runs) (simp add: removal_def)
  have ex: "emits (removal C rs) (file_exists P DST)"
    unfolding file_exists_def by (intro runs) (simp add: removal_def)
  show ?thesis
    unfolding clean_all_def
    by (intro gives_body_after [OF ex] gives_body_after [OF emits_if] gives_if rest un emits_return body_return) simp
qed

lemma gives_clean_pstore: "gives (body C rs) (clean_pstore P C fuel rs)"
  unfolding clean_pstore_def
  by (intro gives_body_proceed emits_mounted)
    (auto intro!: gives_body_proceed emits_dir_not_empty body_return gives_clean_all gives_return simp: body_def cleaned_def)

section \<open>Whose files are removed\<close>

text \<open>Removals of the cleaning are of files with a name in \<open>N\<close> that is not kept.\<close>

definition removes_of :: "('c, 'd) config_scheme \<Rightarrow> 'c option \<Rightarrow> string set \<Rightarrow> sys_event \<Rightarrow> bool" where
  "removes_of C rs N e \<longleftrightarrow> (\<forall>p k. e = EvUnlink p k \<longrightarrow> (\<exists>n\<in>N. \<not> kept C rs n \<and> p = srcpath n)) \<and>
     (\<forall>line. e \<noteq> EvFgets line)"

lemma emits_remove_src: "\<not> kept C rs n \<Longrightarrow> n \<in> N \<Longrightarrow> emits (removes_of C rs N) (remove_src P n fd)"
  unfolding remove_src_def by (intro runs) (auto simp: removes_of_def)

lemma emits_filecopy_of: "emits (removes_of C rs N) (filecopy P fuel p fd)"
  unfolding filecopy_def by (intro runs emits_copy_loop) (simp_all add: removes_of_def)

lemma emits_clean_file:
  assumes "n \<in> N" "n \<noteq> ''.''" "n \<noteq> ''..''"
  shows "emits (removes_of C rs N) (clean_file P C fuel rs fd n)"
proof -
  obtain act dst where r: "rule_of C rs n = (act, dst)" by (cases "rule_of C rs n")
  have k: "act \<noteq> KEEP \<Longrightarrow> \<not> kept C rs n" using assms r by (simp add: kept_def)
  have "emits (removes_of C rs N) (move_file P fuel dst n fd)" if "\<not> kept C rs n"
    unfolding move_file_def
    by (intro runs emits_filecopy_of emits_remove_src [OF that assms(1)]) (simp_all add: removes_of_def)
  moreover have "emits (removes_of C rs N) (log_file P fuel n fd)" if "\<not> kept C rs n"
    unfolding log_file_def
    by (intro runs emits_filecopy_of emits_remove_src [OF that assms(1)]) (simp_all add: removes_of_def)
  ultimately show ?thesis using k by (cases act) (simp_all add: clean_file_def r emits_return)
qed

lemma emits_clean_files: "set names \<subseteq> N \<Longrightarrow> emits (removes_of C rs N) (clean_files P C fuel rs fd names)"
proof (induction names arbitrary: fd)
  case (Cons n names)
  then show ?case
    by (auto simp: emits_return intro!: emits_proceed emits_clean_file split: prod.split)
qed (simp add: emits_return)

lemma emits_no_lines: "emits (removes_of C rs N) (dir_not_empty P fuel p)" "emits (removes_of C rs N) (file_exists P p)"
proof -
  have "emits (removes_of C rs N) (readdir_loop P fuel)" by (induction fuel) (auto intro!: runs simp: removes_of_def)
  then show "emits (removes_of C rs N) (dir_not_empty P fuel p)"
    unfolding dir_not_empty_def by (intro runs) (simp_all add: removes_of_def)
  show "emits (removes_of C rs N) (file_exists P p)"
    unfolding file_exists_def by (intro runs) (simp add: removes_of_def)
qed

text \<open>A file is removed if it is the old log, or if a listing of the directory named it and no rule keeps it.\<close>

definition sorted_out :: "('c, 'd) config_scheme \<Rightarrow> 'c option \<Rightarrow> history \<Rightarrow> bool" where
  "sorted_out C rs evs \<longleftrightarrow> (\<forall>p k. EvUnlink p k \<in> set evs \<longrightarrow> p = DST \<or>
     (\<exists>names n. EvScandir MNT (Some names) \<in> set evs \<and> n \<in> set names \<and> \<not> kept C rs n \<and> p = srcpath n))"

lemma sorted_out_after: "\<forall>p k. EvUnlink p k \<notin> set e1 \<Longrightarrow> sorted_out C rs e2 \<Longrightarrow> sorted_out C rs (e2 @ e1)"
  unfolding sorted_out_def set_append by blast

definition tidy :: "('c, 'd) config_scheme \<Rightarrow> 'c option \<Rightarrow> exit_label option \<Rightarrow> history \<Rightarrow> bool" where
  "tidy C rs r evs \<longleftrightarrow> sorted_out C rs evs \<and> (\<forall>line. EvFgets line \<notin> set evs) \<and> r \<noteq> Some Error1"

lemma tidy_after: "list_all (removes_of C rs {}) e1 \<Longrightarrow> tidy C rs r e2 \<Longrightarrow> tidy C rs r (e2 @ e1)"
  by (auto simp: tidy_def sorted_out_def removes_of_def list_all_iff)

lemma tidy_return: "l \<noteq> Error1 \<Longrightarrow> gives (tidy C rs) (State_Monad.return (Some l))"
  by (rule gives_return) (simp add: tidy_def sorted_out_def)

lemma tidy_clean_all: "gives (tidy C rs) (clean_all P C fuel rs)"
proof -
  have rest: "gives (tidy C rs) (list_files P MNT \<bind> (\<lambda>namelist.
      if length namelist < 1 then State_Monad.return (Some (Error2 (- 1)))
      else proceed (clean_files P C fuel rs (- 1) (rev namelist)) (\<lambda>(ok, dstfd).
        State_Monad.return (Some (if ok then Done else Error3 dstfd)))))"
  proof (rule gives_bind [OF gives_list_files, where
        Q = "\<lambda>names r e. list_all (removes_of C rs (set names)) e \<and> r \<noteq> Some Error1"], goal_cases)
    case (1 names e)
    have loop: "gives (\<lambda>_. list_all (removes_of C rs (set names))) (clean_files P C fuel rs (- 1) (rev names))"
      unfolding emits_def [symmetric] by (rule emits_clean_files) simp
    show ?case
      by (intro gives_if gives_return gives_proceed [OF loop, where Q = "\<lambda>x y e. e = [] \<and> y \<noteq> Some Error1"])
        (auto intro!: gives_return split: if_splits)
  next
    case (2 names r e1 e2)
    from 2(1) show ?case
    proof (elim disjE)
      assume e: "e1 = [EvScandir MNT (Some names)]"
      have "\<exists>n\<in>set names. \<not> kept C rs n \<and> p = srcpath n" if "EvUnlink p k \<in> set e2" for p k
        using 2(2) that by (auto simp: removes_of_def list_all_iff)
      moreover have "EvScandir MNT (Some names) \<in> set (e2 @ e1)" using e by simp
      moreover have "EvFgets line \<notin> set e2" for line using 2(2) by (auto simp: removes_of_def list_all_iff)
      ultimately show ?thesis using e 2(2) unfolding tidy_def sorted_out_def by (auto simp only: set_append set_simps)
    qed (use 2(2) in \<open>auto simp: tidy_def sorted_out_def removes_of_def list_all_iff\<close>)
  qed
  have un: "gives (\<lambda>_ e. \<exists>k. e = [EvUnlink DST k]) (sys_unlink P DST \<bind> (\<lambda>r. State_Monad.return (r = 0)))"
    by (rule gives_bind [OF gives_status gives_return, where R = "\<lambda>k e. e = [EvUnlink DST k]" and Q = "\<lambda>_ _ e. e = []"]) auto
  have ex: "gives (\<lambda>_. list_all (removes_of C rs {})) (file_exists P DST)"
    unfolding emits_def [symmetric] by (rule emits_no_lines)
  show ?thesis
    unfolding clean_all_def
  proof (rule gives_bind [OF ex, where Q = "\<lambda>_. tidy C rs"], goal_cases)
    case (1 x e)
    show ?case
    proof (rule gives_bind [where R = "\<lambda>_ e. e = [] \<or> (\<exists>k. e = [EvUnlink DST k])" and Q = "\<lambda>_. tidy C rs"], goal_cases)
      case 1
      show ?case by (intro gives_if gives_return gives_mono [OF un]) auto
    next
      case 2
      show ?case by (intro gives_if rest tidy_return) simp
    next
      case 3
      then show ?case by (auto simp: tidy_def sorted_out_def)
    qed
  qed (rule tidy_after)
qed

text \<open>The mount table lists the mount point: a line that was read has it.\<close>

definition mount_listed :: "history \<Rightarrow> bool" where
  "mount_listed evs \<longleftrightarrow> (\<exists>line. EvFgets (Some line) \<in> set evs \<and> strstr line MNT)"

lemma gives_mounts_loop:
  "gives (\<lambda>r evs. \<forall>m. r = Some m \<longrightarrow> (m \<noteq> 0 \<longleftrightarrow> mount_listed evs)) (mounts_loop P fuel MNT)"
proof (induction fuel)
  case (Suc fuel)
  show ?case
    unfolding gives_def
  proof
    fix s :: "'a sys_scheme"
    let ?s = "exec (log_event (EvFgets (px_fgets P (hist s) PAGE_SIZE))) s"
    obtain evs where "hist (exec (mounts_loop P fuel MNT) ?s) = evs @ hist ?s"
      "\<forall>m. result (mounts_loop P fuel MNT) ?s = Some m \<longrightarrow> (m \<noteq> 0 \<longleftrightarrow> mount_listed evs)"
      using Suc unfolding gives_def by blast
    then show "\<exists>evs. hist (exec (mounts_loop P (Suc fuel) MNT) s) = evs @ hist s \<and>
        (\<forall>m. result (mounts_loop P (Suc fuel) MNT) s = Some m \<longrightarrow> (m \<noteq> 0 \<longleftrightarrow> mount_listed evs))"
      by (auto simp: exec_bind result_bind log_event_def mount_listed_def split: option.split)
  qed
qed (simp add: gives_return)

lemma gives_mounted: "gives (\<lambda>r evs. \<forall>m. r = Some m \<longrightarrow> (m \<noteq> 0 \<longleftrightarrow> mount_listed evs)) (is_fs_mounted P fuel MNT)"
  unfolding gives_def
proof
  fix s :: "'a sys_scheme"
  let ?s = "exec (log_event (EvFopen ''/proc/mounts'' (px_fopen P (hist s) ''/proc/mounts'' = None))) s"
  obtain evs where "hist (exec (mounts_loop P fuel MNT) ?s) = evs @ hist ?s"
    "\<forall>m. result (mounts_loop P fuel MNT) ?s = Some m \<longrightarrow> (m \<noteq> 0 \<longleftrightarrow> mount_listed evs)"
    using gives_mounts_loop unfolding gives_def by blast
  then show "\<exists>evs. hist (exec (is_fs_mounted P fuel MNT) s) = evs @ hist s \<and>
      (\<forall>m. result (is_fs_mounted P fuel MNT) s = Some m \<longrightarrow> (m \<noteq> 0 \<longleftrightarrow> mount_listed evs))"
    by (auto simp: is_fs_mounted_def proceed_def exec_bind result_bind log_event_def set_errno_def mount_listed_def split: option.split)
qed

definition sorted_body :: "('c, 'd) config_scheme \<Rightarrow> 'c option \<Rightarrow> exit_label option \<Rightarrow> history \<Rightarrow> bool" where
  "sorted_body C rs r evs \<longleftrightarrow> sorted_out C rs evs \<and> (\<forall>label. r = Some label \<longrightarrow> (label \<noteq> Error1 \<longleftrightarrow> mount_listed evs))"

lemma gives_sorted: "gives (sorted_body C rs) (clean_pstore P C fuel rs)"
proof -
  have dir: "gives (\<lambda>_. list_all (removes_of C rs {})) (dir_not_empty P fuel MNT)"
    unfolding emits_def [symmetric] by (rule emits_no_lines)
  have inner: "gives (tidy C rs) (proceed (dir_not_empty P fuel MNT) (\<lambda>status.
      if status = - 1 then State_Monad.return (Some (Error2 (- 1)))
      else if status = 0 then State_Monad.return (Some Done) else clean_all P C fuel rs))"
  proof (rule gives_proceed [OF dir, where Q = "\<lambda>_. tidy C rs"], goal_cases)
    case 1
    show ?case by (intro gives_if tidy_return tidy_clean_all) simp_all
  next
    case (2 e)
    then show ?case by (auto simp: tidy_def sorted_out_def removes_of_def list_all_iff)
  qed (rule tidy_after)
  have first: "gives (\<lambda>r evs. list_all harmless evs \<and> (\<forall>m. r = Some m \<longrightarrow> (m \<noteq> 0 \<longleftrightarrow> mount_listed evs))) (is_fs_mounted P fuel MNT)"
    by (intro gives_conj gives_mounted) (rule emits_mounted [unfolded emits_def])
  show ?thesis
    unfolding clean_pstore_def
  proof (rule gives_proceed [OF first, where
        Q = "\<lambda>m r e. if m = 0 then r = Some Error1 \<and> e = [] else tidy C rs r e"], goal_cases)
    case (1 m)
    show ?case by (cases "m = 0") (auto intro: gives_return inner)
  next
    case (2 e)
    then show ?case by (auto simp: sorted_body_def sorted_out_def list_all_iff)
  next
    case (3 m y e1 e2)
    have u: "\<forall>p k. EvUnlink p k \<notin> set e1" using 3(1) by (auto simp: list_all_iff)
    show ?case
    proof (cases "m = 0")
      case True
      with 3 u show ?thesis by (auto simp: sorted_body_def sorted_out_def)
    next
      case False
      with 3 sorted_out_after [OF u, of C rs e2] show ?thesis by (auto simp: sorted_body_def tidy_def mount_listed_def)
    qed
  qed
qed

section \<open>The end of the program\<close>

text \<open>Events of the bookkeeping at the end.\<close>

fun is_ending :: "sys_event \<Rightarrow> bool" where
  "is_ending (EvRmdir p r) = True"
| "is_ending (EvUmount p r) = True"
| "is_ending EvConfigFree = True"
| "is_ending _ = False"

text \<open>
  What an end adds, newest first: the mount point is removed once, the configuration tree is
  freed once where there is one, the file system is unmounted once where it was mounted, and
  before these there is at most a \<^verbatim>\<open>close\<close>.
\<close>

definition ending :: "bool \<Rightarrow> bool \<Rightarrow> int \<Rightarrow> int \<Rightarrow> history" where
  "ending rootnode mounted k j = EvRmdir MNT k # (if rootnode then [EvConfigFree] else []) @
     (if mounted then [EvUmount MNT j] else [])"

definition closes :: "history \<Rightarrow> bool" where
  "closes evs \<longleftrightarrow> evs = [] \<or> (\<exists>fd. evs = [EvClose fd])"

definition ended :: "bool \<Rightarrow> exit_label \<Rightarrow> int \<Rightarrow> history \<Rightarrow> bool" where
  "ended rootnode label r evs \<longleftrightarrow> (\<exists>k j cl. evs = ending rootnode (label \<noteq> Error1) k j @ cl \<and> closes cl \<and>
     r = (if label = Done \<and> j = 0 then 0 else - 1))"

lemma gives_free_rmdir:
  "gives (\<lambda>r evs. r = c \<and> (\<exists>k. evs = EvRmdir MNT k # (if rootnode then [EvConfigFree] else [])))
     (do { whenM rootnode (log_event EvConfigFree); sys_rmdir P MNT; State_Monad.return c })"
  unfolding gives_def exec_def result_def
  by (auto simp: sys_status_def log_event_def set_errno_def split: option.split)

lemma gives_close: "gives (\<lambda>_ evs. evs = [EvClose fd]) (sys_close P fd)"
  unfolding gives_def exec_def result_def
  by (auto simp: sys_close_def log_event_def set_errno_def split: option.split)

lemma gives_close_if: "gives (\<lambda>_. closes) (whenM b (sys_close P fd))"
  unfolding whenM_def closes_def by (intro gives_if gives_return gives_mono [OF gives_close]) auto

lemma gives_umount_error1:
  "gives (\<lambda>r evs. r = - 1 \<and> (\<exists>k j. evs = ending rootnode True k j)) (sys_umount P MNT \<bind> (\<lambda>_. error1 P rootnode))"
  unfolding error1_def ending_def
  by (rule gives_bind [OF gives_status gives_free_rmdir, where R = "\<lambda>k evs. evs = [EvUmount MNT k]"]) auto

lemma ended_error2:
  assumes "label \<noteq> Error1" "label \<noteq> Done"
  shows "gives (ended rootnode label) (do { whenM (0 \<le> dstfd) (sys_close P dstfd); sys_umount P MNT; error1 P rootnode })"
  by (rule gives_bind [OF gives_close_if gives_umount_error1]) (use assms in \<open>auto simp: ended_def\<close>)

lemma ended_jump: "gives (ended rootnode label) (jump P rootnode label)"
proof (cases label)
  case Done
  show ?thesis
    unfolding jump_def Let_def Done exit_label.case
  proof (rule gives_bind [OF gives_status, where R = "\<lambda>k evs. evs = [EvUmount MNT k]" and
        Q = "\<lambda>j r evs. r = (if j = 0 then 0 else - 1) \<and> (\<exists>k. evs = EvRmdir MNT k # (if rootnode then [EvConfigFree] else []))"], goal_cases)
    case (2 j e)
    show ?case
      unfolding error1_def by (intro gives_if) (auto intro: gives_mono [OF gives_free_rmdir])
  next
    case (3 j r e1 e2)
    then obtain k where "e2 @ e1 = ending rootnode True k j @ []" "r = (if j = 0 then 0 else - 1)" by (auto simp: ending_def)
    then show ?case
      unfolding ended_def by (intro exI [of _ k] exI [of _ j] exI [of _ "[]"]) (simp add: closes_def)
  qed simp
next
  case (Error3 fd)
  show ?thesis unfolding jump_def Let_def Error3 exit_label.case by (rule ended_error2) simp_all
next
  case (Error2 fd)
  show ?thesis unfolding jump_def Let_def Error2 exit_label.case by (rule ended_error2) simp_all
next
  case Error1
  show ?thesis unfolding jump_def Let_def Error1 exit_label.case error1_def
    by (rule gives_mono [OF gives_free_rmdir]) (auto simp: ended_def ending_def closes_def)
qed

lemma harmless_kinds: "harmless e \<Longrightarrow> \<not> is_ending e"
  by (cases e) simp_all

lemma body_event_kinds: "body_event C rs e \<Longrightarrow> \<not> is_ending e"
  by (cases e) (simp_all add: body_event_def removal_def)

lemma gives_load_rules:
  "gives (\<lambda>(r, rs) evs. (evs = [] \<or> (\<exists>f. evs = [EvConfigLoad f])) \<and> rs = rules C \<and> (r = None \<longleftrightarrow> config_node C = None)) (load_rules C)"
  unfolding gives_def load_rules_def rules_def exec_def result_def
  by (auto simp: log_event_def Let_def split: option.split)

text \<open>
  A run that has ended is its ending after the rest; the ending unmounts if the mount table had
  the mount point.
\<close>

definition main_end :: "('c, 'd) config_scheme \<Rightarrow> int \<Rightarrow> history \<Rightarrow> bool" where
  "main_end C x evs \<longleftrightarrow> (\<exists>k j rest. evs = ending (config_node C \<noteq> None) (mount_listed rest) k j @ rest \<and>
     list_all (\<lambda>e. \<not> is_ending e) rest \<and> (x = 0 \<or> x = - 1) \<and>
     (x = 0 \<longrightarrow> mount_listed rest \<and> j = 0 \<and> cleaned C (rules C) rest))"

definition main_events :: "('c, 'd) config_scheme \<Rightarrow> int option \<Rightarrow> history \<Rightarrow> bool" where
  "main_events C r evs \<longleftrightarrow> sorted_out C (rules C) evs \<and>
     (\<forall>p k. EvRmdir p k \<in> set evs \<or> EvUmount p k \<in> set evs \<longrightarrow> p = MNT) \<and>
     (\<forall>x. r = Some x \<longrightarrow> main_end C x evs)"

definition starting :: "history \<Rightarrow> bool" where
  "starting evs \<longleftrightarrow> list_all (\<lambda>e. harmless e \<and> (\<forall>line. e \<noteq> EvFgets line)) evs"

lemma starting_main_events: "starting e1 \<Longrightarrow> main_events C r e2 \<Longrightarrow> main_events C r (e2 @ e1)"
proof -
  assume h: "starting e1" and m: "main_events C r e2"
  have b: "list_all (removal C (rules C)) e1" "list_all (\<lambda>e. \<not> is_ending e) e1" "\<forall>p k. EvUnlink p k \<notin> set e1"
    using h by (auto simp: starting_def list_all_iff harmless_removal dest: harmless_kinds)
  have l: "mount_listed (rest @ e1) = mount_listed rest" for rest using h by (auto simp: starting_def mount_listed_def list_all_iff)
  have "main_end C x (e2 @ e1)" if "main_end C x e2" for x
  proof -
    from that obtain k j rest where e: "e2 = ending (config_node C \<noteq> None) (mount_listed rest) k j @ rest"
      and r: "list_all (\<lambda>e. \<not> is_ending e) rest" "x = 0 \<or> x = - 1"
        "x = 0 \<longrightarrow> mount_listed rest \<and> j = 0 \<and> cleaned C (rules C) rest"
      unfolding main_end_def by blast
    show ?thesis
      unfolding main_end_def
      by (rule exI [of _ k], rule exI [of _ j], rule exI [of _ "rest @ e1"])
        (use e r b cleaned_after [OF b(1), of rest] in \<open>simp add: l\<close>)
  qed
  moreover have "\<forall>p k. EvRmdir p k \<notin> set e1 \<and> EvUmount p k \<notin> set e1" using b(2) by (auto simp: list_all_iff)
  moreover have "sorted_out C (rules C) (e2 @ e1)"
    using m sorted_out_after [OF b(3), of C "rules C" e2] by (simp add: main_events_def)
  ultimately show ?thesis using m by (simp add: main_events_def)
qed

lemma main_events_end:
  assumes "body C (rules C) (Some label) e1" "sorted_body C (rules C) (Some label) e1" "ended (config_node C \<noteq> None) label x e2"
  shows "main_events C (Some x) (e2 @ e1)"
proof -
  obtain k j cl where e2: "e2 = ending (config_node C \<noteq> None) (label \<noteq> Error1) k j @ cl" and cl: "closes cl"
    and x: "x = (if label = Done \<and> j = 0 then 0 else - 1)" using assms(3) unfolding ended_def by blast
  have m: "label \<noteq> Error1 \<longleftrightarrow> mount_listed (cl @ e1)"
    using assms(2) cl by (auto simp: sorted_body_def closes_def mount_listed_def)
  have n: "list_all (\<lambda>e. \<not> is_ending e) (cl @ e1)"
    using assms(1) cl body_event_kinds by (auto simp: body_def closes_def list_all_iff)
  have "cleaned C (rules C) (cl @ e1)" if "x = 0"
  proof -
    have "label = Done" using that x by (auto split: if_splits)
    then have "cleaned C (rules C) e1" using assms(1) by (simp add: body_def)
    then show ?thesis using cl by (auto simp: closes_def cleaned_def)
  qed
  with m n x have "main_end C x (e2 @ e1)"
    unfolding main_end_def e2
    by (intro exI [of _ k] exI [of _ j] exI [of _ "cl @ e1"]) (auto split: if_splits)
  moreover have "sorted_out C (rules C) (e2 @ e1)"
    using assms(2) cl by (auto simp: e2 sorted_body_def sorted_out_def ending_def closes_def)
  moreover have "p = MNT" if "EvRmdir p r \<in> set (e2 @ e1) \<or> EvUmount p r \<in> set (e2 @ e1)" for p r
  proof -
    have "EvRmdir p r \<notin> set (cl @ e1) \<and> EvUmount p r \<notin> set (cl @ e1)" using n by (auto simp only: list_all_iff is_ending.simps)
    with that show ?thesis by (auto simp: e2 ending_def split: if_splits)
  qed
  ultimately show ?thesis by (simp add: main_events_def)
qed

lemma gives_main: "gives (main_events C) (main P C fuel)"
  unfolding main_def
proof (rule gives_bind [OF gives_log, where R = "\<lambda>_ e. e = [EvUmask 23]" and Q = "\<lambda>_. main_events C"], goal_cases)
  case 1
  show ?case by simp
next
  case (2 u)
  show ?case
  proof (rule gives_bind [OF gives_load_rules, where Q = "\<lambda>_. main_events C"], goal_cases)
    case (1 p)
    then obtain r where p: "p = (r, rules C)" "r = None \<longleftrightarrow> config_node C = None" by auto
    note pstore = gives_conj [OF gives_clean_pstore gives_sorted]
    show ?case unfolding p prod.case p(2)
    proof (rule gives_proceed [OF pstore, where
          Q = "\<lambda>label y e. \<exists>x. y = Some x \<and> ended (config_node C \<noteq> None) label x e"], goal_cases)
      case (1 label)
      show ?case by (rule gives_bind [OF ended_jump gives_return, where Q = "\<lambda>r y e. e = [] \<and> y = Some r"]) auto
    next
      case (2 e)
      then have "list_all (\<lambda>e. \<not> is_ending e) e" using body_event_kinds by (auto simp: body_def list_all_iff)
      with 2 show ?case by (auto simp: main_events_def sorted_body_def list_all_iff)
    next
      case (3 label y e1 e2)
      then show ?case by (auto intro: main_events_end)
    qed
  next
    case (2 x y e1 e2)
    then show ?case by (auto simp: starting_def intro: starting_main_events)
  qed
next
  case (3 x y e1 e2)
  then show ?case by (auto simp: starting_def intro: starting_main_events)
qed

section \<open>Enough fuel\<close>

text \<open>
  The inputs the loops have consumed. A kernel whose input is finite runs dry after \<open>N\<close> of
  them; then fuel above \<open>N\<close> is enough for every loop.
\<close>

fun inputs :: "history \<Rightarrow> nat" where
  "inputs [] = 0"
| "inputs (EvRead fd n (Some bs) # h) = (if bs = [] then inputs h else Suc (inputs h))"
| "inputs (EvReaddir (Some name) # h) = Suc (inputs h)"
| "inputs (EvFgets (Some line) # h) = Suc (inputs h)"
| "inputs (_ # h) = inputs h"

definition finite_input :: "nat \<Rightarrow> 'b posix_fs_scheme \<Rightarrow> bool" where
  "finite_input N P \<longleftrightarrow> (\<forall>h. N \<le> inputs h \<longrightarrow> (\<forall>fd n bs. px_read P h fd n = Inr bs \<longrightarrow> bs = []) \<and>
     px_readdir P h = None \<and> (\<forall>n. px_fgets P h n = None))"













section \<open>What a copy writes\<close>

text \<open>The calls of a copy of the given pieces, newest first.\<close>

definition copy_trace :: "int \<Rightarrow> int \<Rightarrow> string list \<Rightarrow> history" where
  "copy_trace srcfd dstfd pieces =
     [EvClose srcfd, EvWrite dstfd [] 0, EvRead srcfd BUFFER_SIZE (Some [])] @
     concat (map (\<lambda>bs. [EvWrite dstfd bs (int (length bs)), EvRead srcfd BUFFER_SIZE (Some bs)]) (rev pieces))"

lemma copy_loop_trace:
  fixes s :: "'a sys_scheme"
  assumes "px_works P" "finite_input N P" "\<And>h fd n. \<exists>bs. px_read P h fd n = Inr bs" "N - inputs (hist s) < fuel"
  shows "result (copy_loop P fuel srcfd dstfd) s = Some 0 \<and>
    (\<exists>pieces. hist (exec (copy_loop P fuel srcfd dstfd) s) = copy_trace srcfd dstfd pieces @ hist s \<and> [] \<notin> set pieces)"
  using assms(4)
proof (induction fuel arbitrary: s)
  case (Suc fuel)
  obtain bs where r: "px_read P (hist s) srcfd BUFFER_SIZE = Inr bs" using assms(3) by blast
  have w: "px_write P h dstfd bs = Inr (length bs)" for h using assms(1) by (rule px_works_write)
  define t where "t = s\<lparr>hist := EvWrite dstfd bs (int (length bs)) # EvRead srcfd BUFFER_SIZE (Some bs) # hist s\<rparr>"
  have step: "exec (copy_loop P (Suc fuel) srcfd dstfd) s =
      (if bs = [] then exec (sys_close P srcfd) t else exec (copy_loop P fuel srcfd dstfd) t)"
    "result (copy_loop P (Suc fuel) srcfd dstfd) s = (if bs = [] then Some 0 else result (copy_loop P fuel srcfd dstfd) t)"
    by (simp_all add: exec_bind result_bind sys_read_def sys_write_def log_event_def r w t_def)
  show ?case
  proof (cases "bs = []")
    case True
    have "hist (exec (sys_close P srcfd) t) = EvClose srcfd # hist t"
      by (simp add: exec_bind sys_close_def log_event_def set_errno_def split: option.split)
    with True step show ?thesis by (intro conjI exI [of _ "[]"]) (simp_all add: copy_trace_def t_def)
  next
    case False
    then have "inputs (hist s) < N" using assms(2) r unfolding finite_input_def by (meson not_less)
    then have "N - inputs (hist t) < fuel" using Suc.prems False by (simp add: t_def)
    from Suc.IH [OF this] obtain ps where ps: "result (copy_loop P fuel srcfd dstfd) t = Some 0"
      "hist (exec (copy_loop P fuel srcfd dstfd) t) = copy_trace srcfd dstfd ps @ hist t" "[] \<notin> set ps" by blast
    with False step show ?thesis by (intro conjI exI [of _ "bs # ps"]) (simp_all add: copy_trace_def t_def)
  qed
qed simp

section \<open>A kernel and a configuration to run examples on\<close>

text \<open>One crash dump of four bytes; the rule of every file is the given action.\<close>

definition demo_fs :: posix_fs where
  "demo_fs = \<lparr>px_open = \<lambda>h p f. Inr 3, px_read = \<lambda>h fd n. if inputs h = 2 then Inr ''oops'' else Inr [],
     px_write = \<lambda>h fd bs. Inr (length bs), px_close = \<lambda>h fd. None, px_clock = \<lambda>h. 0,
     px_stat = \<lambda>h p. Some 2, px_unlink = \<lambda>h p. None, px_umount = \<lambda>h p. None, px_rmdir = \<lambda>h p. None,
     px_opendir = \<lambda>h p. None, px_readdir = \<lambda>h. if inputs h = 1 then Some ''dmesg-efi-1'' else None,
     px_fopen = \<lambda>h p. None, px_fgets = \<lambda>h n. if inputs h = 0 then Some ''none /dev/pstore pstore'' else None,
     px_scandir = \<lambda>h p. Inr [''.'', ''..'', ''dmesg-efi-1'']\<rparr>"

definition demo_config :: "string \<Rightarrow> unit config" where
  "demo_config act = \<lparr>config_node = Some (), config_load_file = \<lambda>c p. c, config_find = \<lambda>c k. Some (),
     config_str = \<lambda>c k. if k = ''action'' then Some act else None\<rparr>"

lemma demo_rule: "rule_of (demo_config act) (Some ()) name =
    (if act = ''move'' then (MOVE, ''/dev/null'') else if act = ''keep'' then (KEEP, []) else (DEFAULT, []))"
  by (simp add: rule_of_def perform_rule_check_def demo_config_def split: prod.split)

lemma demo_run:
  "exec (log_event e) s = s\<lparr>hist := e # hist s\<rparr>" "result (log_event e) s = ()"
  "exec (sys_open demo_fs p f) s = s\<lparr>hist := EvOpen p f 3 # hist s\<rparr>" "result (sys_open demo_fs p f) s = 3"
  "exec (sys_write demo_fs fd bs) s = s\<lparr>hist := EvWrite fd bs (int (length bs)) # hist s\<rparr>" "result (sys_write demo_fs fd bs) s = int (length bs)"
  "exec (sys_close demo_fs fd) s = s\<lparr>hist := EvClose fd # hist s\<rparr>"
  "exec (sys_unlink demo_fs p) s = s\<lparr>hist := EvUnlink p 0 # hist s\<rparr>" "result (sys_unlink demo_fs p) s = 0"
  "exec (sys_umount demo_fs p) s = s\<lparr>hist := EvUmount p 0 # hist s\<rparr>" "result (sys_umount demo_fs p) s = 0"
  "exec (sys_rmdir demo_fs p) s = s\<lparr>hist := EvRmdir p 0 # hist s\<rparr>"
  "exec (file_exists demo_fs p) s = s\<lparr>hist := EvStat p (- 1) # hist s, errno := 2\<rparr>" "result (file_exists demo_fs p) s = False"
  "exec (list_files demo_fs p) s = s\<lparr>hist := EvScandir p (Some [''.'', ''..'', ''dmesg-efi-1'']) # hist s\<rparr>"
  "result (list_files demo_fs p) s = [''.'', ''..'', ''dmesg-efi-1'']"
  "exec (sys_read demo_fs fd n) s = s\<lparr>hist := EvRead fd n (Some (if inputs (hist s) = 2 then ''oops'' else [])) # hist s\<rparr>"
  "result (sys_read demo_fs fd n) s = Some (if inputs (hist s) = 2 then ''oops'' else [])"
  by (simp_all add: demo_fs_def exec_def result_def log_event_def set_errno_def sys_open_def sys_write_def sys_close_def
      sys_status_def file_exists_def list_files_def sys_read_def)

lemma demo_start:
  "px_opendir demo_fs h p = None" "px_readdir demo_fs h = (if inputs h = 1 then Some ''dmesg-efi-1'' else None)"
  "px_fopen demo_fs h p = None" "px_fgets demo_fs h n = (if inputs h = 0 then Some ''none /dev/pstore pstore'' else None)"
  "config_node (demo_config act) = Some ()" "config_load_file (demo_config act) c p = c" "config_find (demo_config act) c k = Some ()"
  by (simp_all add: demo_fs_def demo_config_def)

lemma demo_fs_laws: "px_works demo_fs" "finite_input 3 demo_fs" "\<exists>bs. px_read demo_fs h fd n = Inr bs"
  by (auto simp: px_works_def demo_fs_def finite_input_def)

section \<open>Properties\<close>

text \<open>
  C4. Files a rule keeps stay: whatever the kernel does, the program unlinks nothing but the old
  log \<^verbatim>\<open>/data/dontpanic/apanic_console\<close> and files that a listing of
  \<^verbatim>\<open>/dev/pstore\<close> named and whose rule is not to keep them, it removes no directory and
  unmounts no file system but \<^verbatim>\<open>/dev/pstore\<close>, and no file with a rule to keep it and
  a name of at most 255 characters is unlinked.
\<close>

theorem kept_files_stay:
  "\<exists>evs. hist (exec (main P C fuel) s) = evs @ hist s \<and>
     (\<forall>p k. EvUnlink p k \<in> set evs \<longrightarrow> p = DST \<or>
        (\<exists>names n. EvScandir MNT (Some names) \<in> set evs \<and> n \<in> set names \<and> n \<noteq> ''.'' \<and> n \<noteq> ''..'' \<and>
           fst (rule_of C (rules C) n) \<noteq> KEEP \<and> p = srcpath n)) \<and>
     (\<forall>p k. EvRmdir p k \<in> set evs \<or> EvUmount p k \<in> set evs \<longrightarrow> p = MNT) \<and>
     (\<forall>name k. fst (rule_of C (rules C) name) = KEEP \<and> length name \<le> 255 \<longrightarrow> EvUnlink (srcpath name) k \<notin> set evs)"
proof -
  obtain evs where evs: "hist (exec (main P C fuel) s) = evs @ hist s" "main_events C (result (main P C fuel) s) evs"
    using gives_main unfolding gives_def by blast
  have un: "p = DST \<or> (\<exists>names n. EvScandir MNT (Some names) \<in> set evs \<and> n \<in> set names \<and> n \<noteq> ''.'' \<and> n \<noteq> ''..'' \<and>
           fst (rule_of C (rules C) n) \<noteq> KEEP \<and> p = srcpath n)" if "EvUnlink p k \<in> set evs" for p k
    using evs(2) that unfolding main_events_def sorted_out_def kept_def by blast
  have "EvUnlink (srcpath name) k \<notin> set evs" if "fst (rule_of C (rules C) name) = KEEP" "length name \<le> 255" for name k
  proof
    assume "EvUnlink (srcpath name) k \<in> set evs"
    from un [OF this] consider "srcpath name = DST" | n where "fst (rule_of C (rules C) n) \<noteq> KEEP" "srcpath name = srcpath n"
      by blast
    then show False
    proof cases
      case 1
      then show False using that(2) by (simp add: srcpath_def snprintf_def MNT_def DST_def PATH_MAX_def)
    next
      case 2
      then have "name = take (4095 - 12) n" using that(2) by (simp add: srcpath_def snprintf_def MNT_def PATH_MAX_def)
      moreover from this have "length n \<le> 255" using that(2) by (cases "length n \<le> 4083") auto
      ultimately have "n = name" by simp
      with 2 that(1) show False by simp
    qed
  qed
  moreover have "p = MNT" if "EvRmdir p k \<in> set evs \<or> EvUmount p k \<in> set evs" for p k
    using evs(2) that unfolding main_events_def by blast
  ultimately show ?thesis using evs(1) un by blast
qed

theorem kept_files_stay_witness:
  "fst (rule_of (demo_config ''keep'') (rules (demo_config ''keep'')) ''dmesg-efi-1'') = KEEP \<and>
   (\<exists>evs. hist (exec (main demo_fs (demo_config ''keep'') 4) \<lparr>hist = [], errno = 0\<rparr>) = evs @ [] \<and>
      (\<forall>k. EvUnlink (srcpath ''dmesg-efi-1'') k \<notin> set evs))"
proof -
  have "fst (rule_of (demo_config ''keep'') (rules (demo_config ''keep'')) ''dmesg-efi-1'') = KEEP"
    by (simp add: rule_of_def perform_rule_check_def demo_config_def rules_def split: prod.split)
  with kept_files_stay [of demo_fs "demo_config ''keep''" 4 "\<lparr>hist = [], errno = 0\<rparr>"] show ?thesis by auto
qed

text \<open>
  C8. Every end does its bookkeeping exactly once, and success means clean. A run that returns,
  returns 0 or -1 and ends with these calls and no others of their kind anywhere before: one
  \<^verbatim>\<open>umount\<close> of \<^verbatim>\<open>/dev/pstore\<close> if the mount table it read lists it and none
  otherwise, one \<^verbatim>\<open>config_free\<close> if there is a configuration tree, one
  \<^verbatim>\<open>rmdir\<close> of \<^verbatim>\<open>/dev/pstore\<close>. When it returns 0, the file system was
  listed and the unmount succeeded, and of each directory listing it took, each file that no
  rule keeps has been unlinked with success.
\<close>

theorem success_means_clean:
  assumes "result (main P C fuel) s = Some x"
  shows "\<exists>rest k j. hist (exec (main P C fuel) s) =
      EvRmdir MNT k # (if config_node C \<noteq> None then [EvConfigFree] else []) @
        (if \<exists>line. EvFgets (Some line) \<in> set rest \<and> strstr line MNT then [EvUmount MNT j] else []) @ rest @ hist s \<and>
    list_all (\<lambda>e. \<not> is_ending e) rest \<and> (x = 0 \<or> x = - 1) \<and>
    (x = 0 \<longrightarrow> (\<exists>line. EvFgets (Some line) \<in> set rest \<and> strstr line MNT) \<and> j = 0 \<and>
      (\<forall>names. EvScandir MNT (Some names) \<in> set rest \<longrightarrow>
        (\<forall>n\<in>set names. n = ''.'' \<or> n = ''..'' \<or> fst (rule_of C (rules C) n) = KEEP \<or> EvUnlink (srcpath n) 0 \<in> set rest)))"
proof -
  obtain evs where evs: "hist (exec (main P C fuel) s) = evs @ hist s" "main_events C (result (main P C fuel) s) evs"
    using gives_main unfolding gives_def by blast
  with assms have "main_end C x evs" by (simp add: main_events_def)
  then obtain k j rest where e: "evs = ending (config_node C \<noteq> None) (mount_listed rest) k j @ rest"
    and r: "list_all (\<lambda>e. \<not> is_ending e) rest" "x = 0 \<or> x = - 1"
      "x = 0 \<longrightarrow> mount_listed rest \<and> j = 0 \<and> cleaned C (rules C) rest"
    unfolding main_end_def by blast
  show ?thesis
    by (rule exI [of _ rest], rule exI [of _ k], rule exI [of _ j])
      (use evs(1) e r in \<open>simp add: ending_def mount_listed_def cleaned_def kept_def\<close>)
qed

theorem success_means_clean_witness:
  "result (main demo_fs (demo_config ''log'') 4) \<lparr>hist = [], errno = 0\<rparr> = Some 0 \<and>
   (\<exists>rest k. hist (exec (main demo_fs (demo_config ''log'') 4) \<lparr>hist = [], errno = 0\<rparr>) =
      EvRmdir MNT k # EvConfigFree # EvUmount MNT 0 # rest \<and> list_all (\<lambda>e. \<not> is_ending e) rest)"
proof -
  have r: "result (main demo_fs (demo_config ''log'') 4) \<lparr>hist = [], errno = 0\<rparr> = Some 0"
    by (simp add: main_def clean_pstore_def is_fs_mounted_def dir_not_empty_def clean_all_def proceed_def load_rules_def
        jump_def clean_file_def log_file_def remove_src_def filecopy_def demo_run demo_start demo_rule exec_bind result_bind
        eval_nat_numeral strstr_def MNT_def upt_rec Let_def)
  from success_means_clean [OF r] have "\<exists>rest k. hist (exec (main demo_fs (demo_config ''log'') 4) \<lparr>hist = [], errno = 0\<rparr>) =
      EvRmdir MNT k # EvConfigFree # EvUmount MNT 0 # rest \<and> list_all (\<lambda>e. \<not> is_ending e) rest"
    by (auto simp: demo_start)
  with r show ?thesis by blast
qed



text \<open>
  C36. A copy is complete: where opening and reading work, writes are taken whole and the input
  is finite, \<^verbatim>\<open>filecopy\<close> returns 0 after writing, piece by piece and in order,
  exactly what it read until the end of the file, and closes the file it opened.
\<close>

theorem copy_moves_all_bytes:
  assumes "px_works P" "finite_input N P" "\<And>h fd n. \<exists>bs. px_read P h fd n = Inr bs" "N < fuel"
  shows "result (filecopy P fuel p dstfd) s = Some 0 \<and>
    (\<exists>srcfd pieces. hist (exec (filecopy P fuel p dstfd) s) =
        copy_trace srcfd dstfd pieces @ [EvOpen p O_RDONLY srcfd] @ hist s \<and> [] \<notin> set pieces)"
proof -
  obtain fd where fd: "px_open P (hist s) p O_RDONLY = Inr fd" "0 \<le> fd" using assms(1) by (rule px_works_openE)
  let ?t = "s\<lparr>hist := EvOpen p O_RDONLY fd # hist s\<rparr>"
  have "result (filecopy P fuel p dstfd) s = result (copy_loop P fuel fd dstfd) ?t"
    "exec (filecopy P fuel p dstfd) s = exec (copy_loop P fuel fd dstfd) ?t"
    using fd by (simp_all add: filecopy_def sys_open_def exec_bind result_bind log_event_def)
  moreover have "N - inputs (hist ?t) < fuel" using assms(4) by (simp add: less_imp_diff_less)
  note copy_loop_trace [OF assms(1-3) this, of fd dstfd]
  ultimately show ?thesis by auto
qed

theorem copy_moves_all_bytes_witness:
  "result (filecopy demo_fs 4 ''/dev/pstore/x'' 5) \<lparr>hist = [], errno = 0\<rparr> = Some 0"
  using copy_moves_all_bytes [OF demo_fs_laws(1,2) demo_fs_laws(3), of 4 "''/dev/pstore/x''" 5 "\<lparr>hist = [], errno = 0\<rparr>"] by simp

text \<open>
  C39. \<^verbatim>\<open>getbasefilename\<close> computes the base name, under which rules are looked up,
  for every name that fits its buffer, and returns its length.
\<close>

theorem base_name_computed:
  assumes "CHR 0x00 \<notin> set f" "length f < m" "m \<le> length b" "getbasefilename f b m = (n, b')"
  shows "cstr b' = base_name f \<and> n = length (base_name f)"
  using assms by (rule getbasefilename_is_base_name)

theorem base_name_computed_witness:
  "cstr (snd (getbasefilename ''dmesg-efi-146'' (replicate 20 (CHR ''x'')) 20)) = ''dmesg-efi''"
proof -
  obtain n b' where r: "getbasefilename ''dmesg-efi-146'' (replicate 20 (CHR ''x'')) 20 = (n, b')" by (metis surj_pair)
  have "base_name ''dmesg-efi-146'' = ''dmesg-efi''" by code_simp
  with base_name_computed [OF _ _ _ r] r show ?thesis by simp
qed

section \<open>Two ways to lose a dump\<close>

text \<open>The file is removed although it could not be copied, here with a destination that cannot be opened.\<close>

lemma failed_move_removes_file:
  assumes "rule_of C rs name = (MOVE, dst)" "\<And>h. px_open P h (snd (snprintf PATH_MAX (dst @ ''/'' @ name))) (O_CREAT OR O_TRUNC OR O_WRONLY) = Inl e"
    and "\<And>h. px_unlink P h (srcpath name) = None"
  shows "result (clean_file P C fuel rs fd name) s = Some (True, fd) \<and>
    EvUnlink (srcpath name) 0 \<in> set (hist (exec (clean_file P C fuel rs fd name) s))"
  using assms by (simp add: clean_file_def move_file_def remove_src_def sys_open_def sys_status_def result_bind exec_bind log_event_def set_errno_def)

text \<open>A write that takes less than it is offered is not repeated: the rest of the piece is lost.\<close>

lemma short_write_loses_bytes:
  "result (filecopy (demo_fs\<lparr>px_write := \<lambda>h fd bs. Inr (min 1 (length bs)), px_read := \<lambda>h fd n. if inputs h = 0 then Inr ''oops'' else Inr []\<rparr>)
      4 ''/dev/pstore/x'' 5) \<lparr>hist = [], errno = 0\<rparr> = Some 0 \<and>
   hist (exec (filecopy (demo_fs\<lparr>px_write := \<lambda>h fd bs. Inr (min 1 (length bs)), px_read := \<lambda>h fd n. if inputs h = 0 then Inr ''oops'' else Inr []\<rparr>)
      4 ''/dev/pstore/x'' 5) \<lparr>hist = [], errno = 0\<rparr>) =
     [EvClose 3, EvWrite 5 [] 0, EvRead 3 BUFFER_SIZE (Some []), EvWrite 5 ''oops'' 1, EvRead 3 BUFFER_SIZE (Some ''oops''),
      EvOpen ''/dev/pstore/x'' O_RDONLY 3]"
  by (simp add: result_def exec_def demo_fs_def filecopy_def sys_open_def sys_read_def sys_write_def sys_close_def log_event_def eval_nat_numeral)

end
