(* ===== verification/SensorManager.thy ===== *)
theory SensorManager
  imports Prelude
begin

text \<open>
  The sensor manager of \<^verbatim>\<open>shim/gui/SensorManager.cpp\<close>: it connects to the sensor
  service, keeps the list of sensors, finds default sensors and creates event queues. The
  service and the service manager are a parameter; allocation is taken to succeed. All calls
  hold the mutex, and so does the notice of death of the service, so calls never interleave.
\<close>

section \<open>The service, a parameter\<close>

text \<open>What the sources use of class \<^verbatim>\<open>Sensor\<close>.\<close>

record sensor =
  getType :: int
  isWakeUpSensor :: bool

datatype sm_event =
    SmSleep nat
  | SmGetService int
  | SmLink nat
  | SmSensors nat
  | SmConnect nat bool

type_synonym sm_history = "sm_event list"

text \<open>
  Looking the service up gives an error and a null pointer or a connection, a number; the
  newest event is the head of the history.
\<close>

record 'q sensor_env =
  env_getService :: "sm_history \<Rightarrow> int + nat"
  env_getSensorList :: "sm_history \<Rightarrow> nat \<Rightarrow> sensor list"
  env_createConnection :: "sm_history \<Rightarrow> nat \<Rightarrow> 'q option"

definition env_laws :: "'q sensor_env \<Rightarrow> bool" where
  "env_laws E \<longleftrightarrow> (\<forall>h e. env_getService E h = Inl e \<longrightarrow> e < 0)"

section \<open>State and operations\<close>

text \<open>
  \<^verbatim>\<open>mSensorList\<close> holds pointers into \<^verbatim>\<open>mSensors\<close>: here their indices,
  and \<open>None\<close> for the null pointer.
\<close>

record sm =
  sm_hist :: sm_history
  mSensorServer :: "nat option"
  mSensorList :: "nat list option"
  mSensors :: "sensor list"

definition sm_event :: "sm_event \<Rightarrow> (sm, unit) state" where
  "sm_event e = modify (\<lambda>s. s\<lparr>sm_hist := e # sm_hist s\<rparr>)"

definition sensorManagerDied :: "(sm, unit) state" where
  "sensorManagerDied = do {
     modify (\<lambda>s. s\<lparr>mSensorServer := None\<rparr>);
     modify (\<lambda>s. s\<lparr>mSensorList := None\<rparr>);
     modify (\<lambda>s. s\<lparr>mSensors := []\<rparr>)
   }"

text \<open>The destructor frees the array and touches nothing else.\<close>

definition delete_manager :: "(sm, unit) state" where
  "delete_manager = modify (\<lambda>s. s\<lparr>mSensorList := None\<rparr>)"

text \<open>The loop of at most four lookups, from round \<open>i\<close> on.\<close>

function service_loop :: "'q sensor_env \<Rightarrow> nat \<Rightarrow> int \<Rightarrow> (sm, int) state" where
  "service_loop E i err =
     (if i < 4 then do {
        whenM (0 < i) (sm_event (SmSleep 250000));
        h \<leftarrow> gets sm_hist;
        (let (err, service) = (case env_getService E h of Inl e \<Rightarrow> (e, None) | Inr srv \<Rightarrow> (NO_ERROR, Some srv)) in do {
           sm_event (SmGetService err);
           modify (\<lambda>s. s\<lparr>mSensorServer := service\<rparr>);
           if err \<noteq> NAME_NOT_FOUND then State_Monad.return err else service_loop E (i + 1) err
         })
      } else State_Monad.return err)"
  by pat_completeness auto
termination by (relation "measure (\<lambda>(E, i, err). 4 - i)") auto

declare service_loop.simps [simp del]

text \<open>After the lookup, where it succeeded: the server is not null then.\<close>

definition fetch_sensors :: "'q sensor_env \<Rightarrow> nat \<Rightarrow> (sm, unit) state" where
  "fetch_sensors E srv = do {
     sm_event (SmLink srv);
     h \<leftarrow> gets sm_hist;
     sm_event (SmSensors srv);
     modify (\<lambda>s. s\<lparr>mSensors := env_getSensorList E h srv\<rparr>);
     modify (\<lambda>s. s\<lparr>mSensorList := Some [0..<length (mSensors s)]\<rparr>)
   }"

definition assertStateLocked :: "'q sensor_env \<Rightarrow> (sm, int) state" where
  "assertStateLocked E = do {
     server \<leftarrow> gets mSensorServer;
     if server = None then do {
       err \<leftarrow> service_loop E 0 NO_ERROR;
       if err \<noteq> NO_ERROR then State_Monad.return err
       else do {
         server \<leftarrow> gets mSensorServer;
         fetch_sensors E (the server);
         State_Monad.return NO_ERROR
       }
     } else State_Monad.return NO_ERROR
   }"

definition sm_empty :: sm where
  "sm_empty = \<lparr>sm_hist = [], mSensorServer = None, mSensorList = None, mSensors = []\<rparr>"

definition construct :: "'q sensor_env \<Rightarrow> sm" where
  "construct E = exec (assertStateLocked E) sm_empty"

text \<open>The result and what is stored through \<^verbatim>\<open>list\<close>, \<open>None\<close> where nothing is.\<close>

definition getSensorList :: "'q sensor_env \<Rightarrow> (sm, int \<times> nat list option option) state" where
  "getSensorList E = do {
     err \<leftarrow> assertStateLocked E;
     if err < 0 then State_Monad.return (err, None)
     else do {
       s \<leftarrow> gets id;
       State_Monad.return (int (length (mSensors s)), Some (mSensorList s))
     }
   }"

text \<open>Sensor types of \<^verbatim>\<open>hardware/sensors.h\<close>.\<close>

definition SENSOR_TYPE_PROXIMITY :: int where "SENSOR_TYPE_PROXIMITY = 8"
definition SENSOR_TYPE_SIGNIFICANT_MOTION :: int where "SENSOR_TYPE_SIGNIFICANT_MOTION = 17"
definition SENSOR_TYPE_TILT_DETECTOR :: int where "SENSOR_TYPE_TILT_DETECTOR = 22"
definition SENSOR_TYPE_WAKE_GESTURE :: int where "SENSOR_TYPE_WAKE_GESTURE = 23"
definition SENSOR_TYPE_GLANCE_GESTURE :: int where "SENSOR_TYPE_GLANCE_GESTURE = 24"
definition SENSOR_TYPE_PICK_UP_GESTURE :: int where "SENSOR_TYPE_PICK_UP_GESTURE = 25"

text \<open>
  The search loop: \<open>Inl\<close> is an access through a null pointer, past the array or past the
  vector; otherwise the pointer found, or none.
\<close>

definition entry :: "nat list option \<Rightarrow> sensor list \<Rightarrow> nat \<Rightarrow> (nat \<times> sensor) option" where
  "entry sensorList sensors i =
     (case sensorList of
        None \<Rightarrow> None
      | Some ps \<Rightarrow> if i < length ps \<and> ps ! i < length sensors then Some (ps ! i, sensors ! (ps ! i)) else None)"

function find_sensor :: "nat list option \<Rightarrow> sensor list \<Rightarrow> int \<Rightarrow> bool \<Rightarrow> nat \<Rightarrow> unit + nat option" where
  "find_sensor sensorList sensors type wakeUpSensor i =
     (if i < length sensors then
        (case entry sensorList sensors i of
           None \<Rightarrow> Inl ()
         | Some (p, x) \<Rightarrow>
             if getType x = type \<and> isWakeUpSensor x = wakeUpSensor then Inr (Some p)
             else find_sensor sensorList sensors type wakeUpSensor (i + 1))
      else Inr None)"
  by pat_completeness auto
termination by (relation "measure (\<lambda>(l, xs, t, w, i). length xs - i)") auto

declare find_sensor.simps [simp del]

definition wakes_up :: "int \<Rightarrow> bool" where
  "wakes_up type \<longleftrightarrow> type = SENSOR_TYPE_PROXIMITY \<or> type = SENSOR_TYPE_SIGNIFICANT_MOTION \<or>
     type = SENSOR_TYPE_TILT_DETECTOR \<or> type = SENSOR_TYPE_WAKE_GESTURE \<or>
     type = SENSOR_TYPE_GLANCE_GESTURE \<or> type = SENSOR_TYPE_PICK_UP_GESTURE"

definition getDefaultSensor :: "'q sensor_env \<Rightarrow> int \<Rightarrow> (sm, unit + nat option) state" where
  "getDefaultSensor E type = do {
     err \<leftarrow> assertStateLocked E;
     if err = NO_ERROR then do {
       s \<leftarrow> gets id;
       State_Monad.return (find_sensor (mSensorList s) (mSensors s) type (wakes_up type) 0)
     } else State_Monad.return (Inr None)
   }"

text \<open>
  The loop of \<^verbatim>\<open>createEventQueue\<close> on fuel: \<open>None\<close> is a loop that still runs,
  \<open>Some None\<close> a null pointer, otherwise a queue for the connection.
\<close>

fun createEventQueue :: "'q sensor_env \<Rightarrow> nat \<Rightarrow> (sm, 'q option option) state" where
  "createEventQueue E 0 = State_Monad.return None"
| "createEventQueue E (Suc fuel) = do {
     err \<leftarrow> assertStateLocked E;
     if err = NO_ERROR then do {
       s \<leftarrow> gets id;
       (let connection = env_createConnection E (sm_hist s) (the (mSensorServer s)) in do {
          sm_event (SmConnect (the (mSensorServer s)) (connection \<noteq> None));
          (case connection of None \<Rightarrow> createEventQueue E fuel | Some c \<Rightarrow> State_Monad.return (Some (Some c)))
        })
     } else State_Monad.return (Some None)
   }"

section \<open>The connection\<close>

lemma exec_sm_event [simp]: "exec (sm_event e) s = s\<lparr>sm_hist := e # sm_hist s\<rparr>"
  by (simp add: sm_event_def)

text \<open>What a lookup leaves: the server it returned, no change elsewhere, bounded waiting.\<close>

definition tries :: "sm_history \<Rightarrow> nat" where
  "tries h = length (filter (\<lambda>e. case e of SmGetService _ \<Rightarrow> True | _ \<Rightarrow> False) h)"

fun slept :: "sm_history \<Rightarrow> nat" where
  "slept [] = 0"
| "slept (SmSleep us # h) = us + slept h"
| "slept (_ # h) = slept h"

definition looked_up :: "nat \<Rightarrow> sm \<Rightarrow> int \<Rightarrow> sm \<Rightarrow> bool" where
  "looked_up i s r t \<longleftrightarrow> mSensorList t = mSensorList s \<and> mSensors t = mSensors s \<and> r \<le> 0 \<and> (r = 0 \<longleftrightarrow> mSensorServer t \<noteq> None) \<and>
    (\<exists>evs. sm_hist t = evs @ sm_hist s \<and> 1 \<le> tries evs \<and> tries evs \<le> 4 - i \<and>
       slept evs + 250000 = 250000 * (tries evs + (if i = 0 then 0 else 1)))"

lemma slept_append: "slept (a @ b) = slept a + slept b"
  by (induction a rule: slept.induct) auto

lemma tries_append: "tries (a @ b) = tries a + tries b"
  by (simp add: tries_def)

lemma looked_up_here:
  "i < 4 \<Longrightarrow> e \<le> 0 \<Longrightarrow> (e = 0 \<longleftrightarrow> srv \<noteq> None) \<Longrightarrow>
     looked_up i s e (s\<lparr>sm_hist := SmGetService e # (if i = 0 then [] else [SmSleep 250000]) @ sm_hist s, mSensorServer := srv\<rparr>)"
  unfolding looked_up_def
  by (intro conjI exI [of _ "SmGetService e # (if i = 0 then [] else [SmSleep 250000])"]) (auto simp: tries_def)

lemma looked_up_more:
  assumes "Suc i < 4" "looked_up (Suc i) (s\<lparr>sm_hist := SmGetService e # (if i = 0 then [] else [SmSleep 250000]) @ sm_hist s, mSensorServer := srv\<rparr>) r t"
  shows "looked_up i s r t"
proof -
  obtain evs where evs: "sm_hist t = evs @ SmGetService e # (if i = 0 then [] else [SmSleep 250000]) @ sm_hist s" "1 \<le> tries evs"
    "tries evs \<le> 4 - Suc i" "slept evs + 250000 = 250000 * (tries evs + 1)"
    using assms(2) unfolding looked_up_def by auto
  let ?here = "SmGetService e # (if i = 0 then [] else [SmSleep 250000])"
  have h: "tries ?here = 1" "slept ?here = (if i = 0 then 0 else 250000)" by (simp_all add: tries_def)
  have "sm_hist t = (evs @ ?here) @ sm_hist s \<and> 1 \<le> tries (evs @ ?here) \<and> tries (evs @ ?here) \<le> 4 - i \<and>
      slept (evs @ ?here) + 250000 = 250000 * (tries (evs @ ?here) + (if i = 0 then 0 else 1))"
    unfolding tries_append slept_append h using evs assms(1) by auto
  with assms(2) show ?thesis unfolding looked_up_def by auto
qed

lemma service_loop_step:
  fixes s :: sm and i :: nat
  defines "h \<equiv> (if i = 0 then [] else [SmSleep 250000]) @ sm_hist s"
  assumes "i < 4"
  shows "run_state (service_loop E i err) s =
    (case env_getService E h of
       Inr srv \<Rightarrow> (0, s\<lparr>sm_hist := SmGetService 0 # h, mSensorServer := Some srv\<rparr>)
     | Inl e \<Rightarrow> (if e \<noteq> NAME_NOT_FOUND then (e, s\<lparr>sm_hist := SmGetService e # h, mSensorServer := None\<rparr>)
         else run_state (service_loop E (Suc i) e) (s\<lparr>sm_hist := SmGetService e # h, mSensorServer := None\<rparr>)))"
  using assms(2) unfolding h_def
  by (subst service_loop.simps) (simp add: sm_event_def split: sum.split)

lemma service_loop_end: "\<not> i < 4 \<Longrightarrow> service_loop E i err = State_Monad.return err"
  by (subst service_loop.simps) simp

lemma service_loop_run:
  assumes "env_laws E" "i < 4"
  shows "looked_up i s (result (service_loop E i err) s) (exec (service_loop E i err) s)"
  using assms(2)
proof (induction "4 - i" arbitrary: i err s)
  case (Suc n)
  let ?h = "(if i = 0 then [] else [SmSleep 250000]) @ sm_hist s"
  note step = service_loop_step [OF Suc.prems, of E err s]
  show ?case
  proof (cases "env_getService E ?h")
    case (Inr srv)
    with step looked_up_here [OF Suc.prems, of 0 "Some srv" s] show ?thesis by (simp add: exec_def result_def)
  next
    case (Inl e)
    with assms(1) have e: "e < 0" unfolding env_laws_def by blast
    let ?u = "s\<lparr>sm_hist := SmGetService e # ?h, mSensorServer := None\<rparr>"
    have run: "run_state (service_loop E i err) s = (if e \<noteq> NAME_NOT_FOUND then (e, ?u) else run_state (service_loop E (Suc i) e) ?u)"
      using step Inl by simp
    show ?thesis
    proof (cases "e \<noteq> NAME_NOT_FOUND \<or> \<not> Suc i < 4")
      case True
      then have "run_state (service_loop E i err) s = (e, ?u)"
        using run by (auto simp: service_loop_end)
      with e looked_up_here [OF Suc.prems, of e None s] show ?thesis by (simp add: exec_def result_def)
    next
      case False
      then have i: "Suc i < 4" "n = 4 - Suc i" using Suc(2) by auto
      have "run_state (service_loop E i err) s = run_state (service_loop E (Suc i) e) ?u" using run False by simp
      with Suc.hyps(1) [OF i(2,1), of ?u e] looked_up_more [OF i(1), where s = s and e = e and srv = None] show ?thesis
        by (simp add: exec_def result_def)
    qed
  qed
qed simp

text \<open>The invariant: without a server there is no list; with one, the list is the vector's pointers.\<close>

definition sm_inv :: "sm \<Rightarrow> bool" where
  "sm_inv s \<longleftrightarrow> (case mSensorServer s of
     None \<Rightarrow> mSensorList s = None \<and> mSensors s = []
   | Some srv \<Rightarrow> mSensorList s = Some [0..<length (mSensors s)])"

lemma fetch_exec: "exec (fetch_sensors E srv) s =
    s\<lparr>sm_hist := SmSensors srv # SmLink srv # sm_hist s, mSensors := env_getSensorList E (SmLink srv # sm_hist s) srv,
      mSensorList := Some [0..<length (env_getSensorList E (SmLink srv # sm_hist s) srv)]\<rparr>"
  by (simp add: fetch_sensors_def exec_bind)

text \<open>All that the other operations need to know of \<open>assertStateLocked\<close>.\<close>

lemma assert_connects:
  assumes "env_laws E" "sm_inv s"
  defines "r \<equiv> result (assertStateLocked E) s" and "t \<equiv> exec (assertStateLocked E) s"
  shows "sm_inv t" "r \<le> 0" "r = 0 \<longleftrightarrow> mSensorServer t \<noteq> None" "mSensorServer s \<noteq> None \<Longrightarrow> t = s"
    "mSensorServer s = None \<Longrightarrow> \<exists>evs. sm_hist t = evs @ sm_hist s \<and> 1 \<le> tries evs \<and> tries evs \<le> 4 \<and> slept evs = 250000 * (tries evs - 1)"
proof -
  let ?r = "result (service_loop E 0 0) s" and ?t = "exec (service_loop E 0 0) s"
  have look: "looked_up 0 s ?r ?t" using assms(1) by (intro service_loop_run) simp_all
  have none: "r = (if ?r \<noteq> 0 then ?r else 0)" "t = (if ?r \<noteq> 0 then ?t else exec (fetch_sensors E (the (mSensorServer ?t))) ?t)"
    if "mSensorServer s = None"
    using that by (auto simp: r_def t_def assertStateLocked_def exec_bind result_bind)
  have some: "r = 0" "t = s" if "mSensorServer s \<noteq> None"
    using that by (auto simp: r_def t_def assertStateLocked_def exec_bind result_bind)
  show "mSensorServer s \<noteq> None \<Longrightarrow> t = s" by (rule some)
  show "sm_inv t" using assms(2) none some look
    by (cases "mSensorServer s = None") (auto simp: sm_inv_def looked_up_def fetch_exec split: option.splits if_splits)
  show "r \<le> 0" using none some look by (cases "mSensorServer s = None") (auto simp: looked_up_def split: if_splits)
  show "r = 0 \<longleftrightarrow> mSensorServer t \<noteq> None"
    using none some look by (cases "mSensorServer s = None") (auto simp: looked_up_def fetch_exec split: if_splits)
  show "\<exists>evs. sm_hist t = evs @ sm_hist s \<and> 1 \<le> tries evs \<and> tries evs \<le> 4 \<and> slept evs = 250000 * (tries evs - 1)"
    if "mSensorServer s = None"
  proof -
    obtain evs where e: "sm_hist ?t = evs @ sm_hist s" "1 \<le> tries evs" "tries evs \<le> 4" "slept evs + 250000 = 250000 * tries evs"
      using look unfolding looked_up_def by auto
    then have sl: "slept evs = 250000 * (tries evs - 1)" by (simp add: diff_mult_distrib2)
    let ?more = "[SmSensors (the (mSensorServer ?t)), SmLink (the (mSensorServer ?t))]"
    have "tries (?more @ evs) = tries evs" "slept (?more @ evs) = slept evs" by (simp_all add: tries_def)
    moreover have "sm_hist t = evs @ sm_hist s \<or> sm_hist t = (?more @ evs) @ sm_hist s"
      using none(2) [OF that] e(1) by (simp add: fetch_exec split: if_splits)
    ultimately show ?thesis using e sl by metis
  qed
qed

section \<open>Searching\<close>

definition wanted :: "int \<Rightarrow> bool \<Rightarrow> sensor \<Rightarrow> bool" where
  "wanted type wakeUp x \<longleftrightarrow> getType x = type \<and> isWakeUpSensor x = wakeUp"

text \<open>On the list the invariant describes, the search gives the first match from \<open>i\<close> on.\<close>

lemma find_sensor_first:
  "i \<le> length xs \<Longrightarrow> (\<exists>r. find_sensor (Some [0..<length xs]) xs type w i = Inr r \<and>
     (case r of None \<Rightarrow> \<forall>j. i \<le> j \<longrightarrow> j < length xs \<longrightarrow> \<not> wanted type w (xs ! j)
      | Some k \<Rightarrow> i \<le> k \<and> k < length xs \<and> wanted type w (xs ! k) \<and> (\<forall>j. i \<le> j \<longrightarrow> j < k \<longrightarrow> \<not> wanted type w (xs ! j))))"
proof (induction "length xs - i" arbitrary: i)
  case 0
  then show ?case by (subst find_sensor.simps) simp
next
  case (Suc n)
  then have i: "i < length xs" "n = length xs - Suc i" by auto
  show ?case
  proof (cases "wanted type w (xs ! i)")
    case True
    with i show ?thesis
      by (subst find_sensor.simps) (simp add: entry_def wanted_def)
  next
    case False
    have "find_sensor (Some [0..<length xs]) xs type w i = find_sensor (Some [0..<length xs]) xs type w (Suc i)"
      using i False by (subst find_sensor.simps) (auto simp: entry_def wanted_def)
    with Suc.hyps(1) [OF i(2)] i(1) False show ?thesis
      by (auto split: option.splits simp: le_eq_less_or_eq [of i])
  qed
qed

section \<open>Every sequence of calls\<close>

datatype sm_call = ListCall | DefaultCall int | QueueCall nat | ServiceDied

fun sm_step :: "'q sensor_env \<Rightarrow> sm_call \<Rightarrow> sm \<Rightarrow> sm" where
  "sm_step E ListCall s = exec (getSensorList E) s"
| "sm_step E (DefaultCall type) s = exec (getDefaultSensor E type) s"
| "sm_step E (QueueCall fuel) s = exec (createEventQueue E fuel) s"
| "sm_step E ServiceDied s = exec sensorManagerDied s"

lemma sm_inv_hist: "sm_inv (s\<lparr>sm_hist := h\<rparr>) = sm_inv s"
  by (simp add: sm_inv_def split: option.split)

lemma queue_inv: "env_laws E \<Longrightarrow> sm_inv s \<Longrightarrow> sm_inv (exec (createEventQueue E fuel) s)"
proof (induction fuel arbitrary: s)
  case (Suc fuel)
  let ?t = "exec (assertStateLocked E) s"
  have t: "sm_inv ?t" using Suc.prems by (rule assert_connects)
  with Suc show ?case by (auto simp: exec_bind Let_def sm_inv_hist split: option.split)
qed simp

lemma sm_step_inv: "env_laws E \<Longrightarrow> sm_inv s \<Longrightarrow> sm_inv (sm_step E c s)"
  using assert_connects(1) [of E s]
  by (cases c) (simp_all add: getSensorList_def getDefaultSensor_def exec_bind queue_inv, simp add: sensorManagerDied_def exec_bind sm_inv_def)

interpretation sm: free_machine "sm_step E" "\<lambda>s. env_laws E \<longrightarrow> sm_inv s"
  by unfold_locales (blast intro: sm_step_inv)

lemma construct_inv: "env_laws E \<Longrightarrow> sm_inv (construct E)"
  unfolding construct_def by (rule assert_connects) (simp_all add: sm_empty_def sm_inv_def)

lemma run_sm_inv: "env_laws E \<Longrightarrow> sm_inv (fold (sm_step E) calls (construct E))"
  using sm.run_inv [of E "construct E" calls] construct_inv by blast

text \<open>While the server is there, a round of the loop adds one refused connection or ends.\<close>

lemma queue_round:
  assumes "mSensorServer s = Some srv"
  shows "run_state (createEventQueue E (Suc fuel)) s =
    (case env_createConnection E (sm_hist s) srv of
       None \<Rightarrow> run_state (createEventQueue E fuel) (s\<lparr>sm_hist := SmConnect srv False # sm_hist s\<rparr>)
     | Some c \<Rightarrow> (Some (Some c), s\<lparr>sm_hist := SmConnect srv True # sm_hist s\<rparr>))"
  using assms by (simp add: assertStateLocked_def sm_event_def Let_def split: option.split)

definition refused :: "nat \<Rightarrow> nat \<Rightarrow> sm_history \<Rightarrow> sm_history" where
  "refused k srv h = replicate k (SmConnect srv False) @ h"

lemma refused_Suc: "refused (Suc k) srv h = refused k srv (SmConnect srv False # h)"
  by (simp add: refused_def replicate_app_Cons_same)

lemma queue_refused:
  "mSensorServer s = Some srv \<Longrightarrow> (\<And>j. j < n \<Longrightarrow> env_createConnection E (refused j srv (sm_hist s)) srv = None) \<Longrightarrow>
     result (createEventQueue E (n + m)) s = result (createEventQueue E m) (s\<lparr>sm_hist := refused n srv (sm_hist s)\<rparr>)"
proof (induction n arbitrary: s)
  case 0
  then show ?case by (simp add: refused_def)
next
  case (Suc n)
  let ?s = "s\<lparr>sm_hist := SmConnect srv False # sm_hist s\<rparr>"
  have "env_createConnection E (sm_hist s) srv = None" using Suc.prems(2) [of 0] by (simp add: refused_def)
  then have "result (createEventQueue E (Suc (n + m))) s = result (createEventQueue E (n + m)) ?s"
    using queue_round [OF Suc.prems(1), of E "n + m"] by (simp add: result_def del: createEventQueue.simps)
  moreover have "env_createConnection E (refused j srv (sm_hist ?s)) srv = None" if "j < n" for j
    using Suc.prems(2) [of "Suc j"] that by (simp add: refused_Suc)
  ultimately show ?case using Suc.IH [of ?s] Suc.prems(1) by (simp add: refused_Suc)
qed

lemma queue_some:
  "mSensorServer s = Some srv \<Longrightarrow> result (createEventQueue E fuel) s = Some q \<Longrightarrow>
     \<exists>k. q = env_createConnection E (refused k srv (sm_hist s)) srv \<and> q \<noteq> None \<and>
       (\<forall>j<k. env_createConnection E (refused j srv (sm_hist s)) srv = None)"
proof (induction fuel arbitrary: s)
  case (Suc fuel)
  show ?case
  proof (cases "env_createConnection E (sm_hist s) srv")
    case (Some c)
    then have "q = Some c"
      using queue_round [OF Suc.prems(1), of E fuel] Suc.prems(2) by (simp add: result_def del: createEventQueue.simps)
    with Some show ?thesis by (intro exI [of _ 0]) (simp add: refused_def)
  next
    case None
    let ?s = "s\<lparr>sm_hist := SmConnect srv False # sm_hist s\<rparr>"
    have "result (createEventQueue E fuel) ?s = Some q"
      using queue_round [OF Suc.prems(1), of E fuel] Suc.prems(2) None by (simp add: result_def del: createEventQueue.simps)
    with Suc.IH [of ?s] Suc.prems(1) obtain k where k: "q = env_createConnection E (refused (Suc k) srv (sm_hist s)) srv" "q \<noteq> None"
      "\<forall>j<k. env_createConnection E (refused (Suc j) srv (sm_hist s)) srv = None" by (auto simp: refused_Suc)
    have "env_createConnection E (refused j srv (sm_hist s)) srv = None" if "j < Suc k" for j
      using k(3) that None by (cases j) (auto simp: refused_def)
    with k(1,2) show ?thesis by blast
  qed
qed simp

text \<open>A dead server that refuses every connection keeps the call in its loop for ever.\<close>

lemma dead_server_hangs:
  assumes "mSensorServer s = Some srv" "\<And>h. env_createConnection E h srv = None"
  shows "result (createEventQueue E fuel) s = None"
proof (rule ccontr)
  assume "\<not> ?thesis"
  then obtain q where "result (createEventQueue E fuel) s = Some q" by auto
  from queue_some [OF assms(1) this] assms(2) show False by auto
qed

definition demo_env :: "nat sensor_env" where
  "demo_env = \<lparr>env_getService = \<lambda>h. if tries h < 2 then Inl (- 2) else Inr 7,
     env_getSensorList = \<lambda>h srv. [\<lparr>getType = 1, isWakeUpSensor = False\<rparr>, \<lparr>getType = 8, isWakeUpSensor = False\<rparr>, \<lparr>getType = 8, isWakeUpSensor = True\<rparr>],
     env_createConnection = \<lambda>h srv. case h of SmConnect _ _ # _ \<Rightarrow> Some 9 | _ \<Rightarrow> None\<rparr>"

lemma demo_construct: "construct demo_env =
    \<lparr>sm_hist = [SmSensors 7, SmLink 7, SmGetService 0, SmSleep 250000, SmGetService (- 2), SmSleep 250000, SmGetService (- 2)],
     mSensorServer = Some 7, mSensorList = Some [0..<3], mSensors = env_getSensorList demo_env [] 7\<rparr>"
proof -
  have "run_state (service_loop demo_env 0 0) sm_empty = (0, sm_empty\<lparr>sm_hist := [SmGetService 0, SmSleep 250000,
      SmGetService (- 2), SmSleep 250000, SmGetService (- 2)], mSensorServer := Some 7\<rparr>)"
    by (simp add: service_loop_step sm_empty_def demo_env_def tries_def)
  then have "exec (service_loop demo_env 0 0) sm_empty = sm_empty\<lparr>sm_hist := [SmGetService 0, SmSleep 250000,
      SmGetService (- 2), SmSleep 250000, SmGetService (- 2)], mSensorServer := Some 7\<rparr>"
    "result (service_loop demo_env 0 0) sm_empty = 0"
    by (simp_all add: exec_def result_def)
  then show ?thesis
    by (simp add: construct_def assertStateLocked_def exec_bind fetch_exec) (simp add: sm_empty_def demo_env_def numeral_3_eq_3)
qed

lemma demo_env_laws: "env_laws demo_env"
  by (simp add: env_laws_def demo_env_def split: if_splits)

text \<open>A connected manager returns the connection of the first grant.\<close>

lemma queue_connected:
  assumes "mSensorServer s = Some srv"
  shows "(\<exists>fuel. result (createEventQueue E fuel) s = Some q) \<longleftrightarrow>
    (\<exists>k. q = env_createConnection E (refused k srv (sm_hist s)) srv \<and> q \<noteq> None \<and>
       (\<forall>j<k. env_createConnection E (refused j srv (sm_hist s)) srv = None))"
proof
  assume "\<exists>k. q = env_createConnection E (refused k srv (sm_hist s)) srv \<and> q \<noteq> None \<and>
       (\<forall>j<k. env_createConnection E (refused j srv (sm_hist s)) srv = None)"
  then obtain k c where k: "q = Some c" "env_createConnection E (refused k srv (sm_hist s)) srv = Some c"
    "\<And>j. j < k \<Longrightarrow> env_createConnection E (refused j srv (sm_hist s)) srv = None" by auto
  let ?s = "s\<lparr>sm_hist := refused k srv (sm_hist s)\<rparr>"
  have "result (createEventQueue E (k + Suc 0)) s = result (createEventQueue E (Suc 0)) ?s"
    by (rule queue_refused [OF assms k(3)])
  also have "\<dots> = Some q"
    using queue_round [of ?s srv E 0] assms k(1,2) by (simp add: result_def del: createEventQueue.simps)
  finally have "result (createEventQueue E (k + Suc 0)) s = Some q" .
  then show "\<exists>fuel. result (createEventQueue E fuel) s = Some q" by blast
qed (use queue_some [OF assms] in blast)

text \<open>The first round connects where it can; without a connection it is the last.\<close>

lemma queue_first_round:
  assumes "env_laws E" "sm_inv s"
  defines "t \<equiv> exec (assertStateLocked E) s"
  shows "result (createEventQueue E (Suc fuel)) s =
    (if mSensorServer t = None then Some None else result (createEventQueue E (Suc fuel)) t)"
proof -
  note a = assert_connects [OF assms(1,2)]
  have inv: "sm_inv t" unfolding t_def by (rule a)
  note b = assert_connects [OF assms(1) inv]
  show ?thesis
  proof (cases "mSensorServer t = None")
    case True
    then have "result (assertStateLocked E) s \<noteq> NO_ERROR" using a(3) by (simp add: t_def)
    with True show ?thesis by (simp add: result_bind)
  next
    case False
    then have "result (assertStateLocked E) s = NO_ERROR" "result (assertStateLocked E) t = NO_ERROR" "exec (assertStateLocked E) t = t"
      using a(3) b(3,4) by (simp_all add: t_def)
    with False show ?thesis by (simp only: createEventQueue.simps result_bind t_def [symmetric] if_False)
  qed
qed

text \<open>The demo service that is never found.\<close>

definition lost_env :: "nat sensor_env" where
  "lost_env = demo_env\<lparr>env_getService := \<lambda>h. Inl NAME_NOT_FOUND\<rparr>"

lemma lost_env_laws: "env_laws lost_env"
  by (simp add: env_laws_def lost_env_def)

lemma lost_assert: "mSensorServer s = None \<Longrightarrow> mSensorServer (exec (assertStateLocked lost_env) s) = None"
proof -
  assume s: "mSensorServer s = None"
  have "\<exists>h. run_state (service_loop lost_env 0 0) s = (NAME_NOT_FOUND, s\<lparr>sm_hist := h, mSensorServer := None\<rparr>)"
    by (simp add: service_loop_step service_loop_end lost_env_def) blast
  then obtain h where "result (service_loop lost_env 0 0) s = NAME_NOT_FOUND"
      "exec (service_loop lost_env 0 0) s = s\<lparr>sm_hist := h, mSensorServer := None\<rparr>"
    by (auto simp: result_def exec_def)
  with s show ?thesis by (simp add: assertStateLocked_def exec_bind)
qed

section \<open>Properties\<close>

text \<open>
  C38. Connecting is bounded: in any state calls lead to, a connected manager does not ask
  again; one that is not connected asks for the service one to four times and sleeps a quarter
  of a second before each but the first, at most three quarters in all; it reports success
  exactly when it is connected afterwards.
\<close>

theorem connecting_is_bounded:
  assumes "env_laws E" "s = fold (sm_step E) calls (construct E)"
  shows "\<exists>evs. sm_hist (exec (assertStateLocked E) s) = evs @ sm_hist s \<and>
      (if mSensorServer s \<noteq> None then evs = [] else 1 \<le> tries evs \<and> tries evs \<le> 4 \<and> slept evs = 250000 * (tries evs - 1)) \<and>
      (result (assertStateLocked E) s = NO_ERROR \<longleftrightarrow> mSensorServer (exec (assertStateLocked E) s) \<noteq> None)"
proof -
  have i: "sm_inv s" unfolding assms(2) using assms(1) by (rule run_sm_inv)
  note a = assert_connects [OF assms(1) i]
  show ?thesis
  proof (cases "mSensorServer s = None")
    case True
    with a(3,5) show ?thesis by simp
  next
    case False
    with a(3,4) show ?thesis by (intro exI [of _ "[]"]) simp
  qed
qed

theorem connecting_is_bounded_witness:
  "let s = exec sensorManagerDied (construct demo_env) in
     \<exists>evs. sm_hist (exec (assertStateLocked demo_env) s) = evs @ sm_hist s \<and> tries evs \<le> 4 \<and> slept evs = 250000 * (tries evs - 1)"
proof -
  have "mSensorServer (exec sensorManagerDied s) = None" for s
    by (simp add: sensorManagerDied_def exec_bind)
  with connecting_is_bounded [OF demo_env_laws, of _ "[ServiceDied]"] show ?thesis by auto
qed

text \<open>
  C18. The default sensor is the first of its kind: in any state calls lead to, the search
  follows no bad pointer and returns the first sensor of the type that wakes the device up
  exactly when the type is one of the six that do; it returns none only if there is no such
  sensor or no connection.
\<close>

theorem default_sensor_is_first:
  assumes "env_laws E" "s = fold (sm_step E) calls (construct E)" "t = exec (getDefaultSensor E type) s"
  shows "\<exists>r. result (getDefaultSensor E type) s = Inr r \<and>
    (case r of
       None \<Rightarrow> mSensorServer t = None \<or> (\<forall>x\<in>set (mSensors t). \<not> wanted type (wakes_up type) x)
     | Some k \<Rightarrow> k < length (mSensors t) \<and> wanted type (wakes_up type) (mSensors t ! k) \<and>
         (\<forall>j<k. \<not> wanted type (wakes_up type) (mSensors t ! j)))"
proof -
  have i: "sm_inv s" unfolding assms(2) using assms(1) by (rule run_sm_inv)
  note a = assert_connects [OF assms(1) i]
  let ?t = "exec (assertStateLocked E) s"
  have t: "t = ?t" by (simp add: assms(3) getDefaultSensor_def exec_bind)
  show ?thesis
  proof (cases "result (assertStateLocked E) s = NO_ERROR")
    case True
    with a(1,3) obtain srv where "mSensorServer ?t = Some srv" "mSensorList ?t = Some [0..<length (mSensors ?t)]"
      by (auto simp: sm_inv_def)
    then have "result (getDefaultSensor E type) s = find_sensor (Some [0..<length (mSensors ?t)]) (mSensors ?t) type (wakes_up type) 0"
      using True by (simp add: getDefaultSensor_def result_bind)
    moreover obtain r where r: "find_sensor (Some [0..<length (mSensors ?t)]) (mSensors ?t) type (wakes_up type) 0 = Inr r"
      "case r of None \<Rightarrow> \<forall>j. 0 \<le> j \<longrightarrow> j < length (mSensors ?t) \<longrightarrow> \<not> wanted type (wakes_up type) (mSensors ?t ! j)
        | Some k \<Rightarrow> 0 \<le> k \<and> k < length (mSensors ?t) \<and> wanted type (wakes_up type) (mSensors ?t ! k) \<and>
            (\<forall>j. 0 \<le> j \<longrightarrow> j < k \<longrightarrow> \<not> wanted type (wakes_up type) (mSensors ?t ! j))"
      using find_sensor_first [of 0 "mSensors ?t" type "wakes_up type"] by blast
    ultimately show ?thesis
      unfolding t by (intro exI [of _ r]) (cases r; auto simp: in_set_conv_nth)
  next
    case False
    with a(3) show ?thesis unfolding t by (simp add: getDefaultSensor_def result_bind)
  qed
qed

theorem default_sensor_is_first_witness:
  "result (getDefaultSensor demo_env 8) (construct demo_env) = Inr (Some 2) \<and>
   (let t = exec (getDefaultSensor demo_env 8) (construct demo_env) in
      wanted 8 (wakes_up 8) (mSensors t ! 2) \<and> (\<forall>j<2. \<not> wanted 8 (wakes_up 8) (mSensors t ! j)))"
proof -
  have "result (getDefaultSensor demo_env 8) (construct demo_env) = Inr (Some 2)"
    unfolding demo_construct
    by (simp add: getDefaultSensor_def assertStateLocked_def result_bind exec_bind demo_env_def find_sensor.simps entry_def upt_rec
        wakes_up_def SENSOR_TYPE_PROXIMITY_def)
  with default_sensor_is_first [OF demo_env_laws, of _ "[]" _ 8] show ?thesis by (auto simp: Let_def)
qed

text \<open>
  C20. When \<^verbatim>\<open>createEventQueue\<close> returns: called in any state calls lead to, it first
  connects where it is not connected. If that fails, it returns the null pointer and nothing
  else. If the manager is connected, it returns if and only if the server grants a connection
  after some number of refusals, and then returns the queue of that connection. A server that
  has died refuses for ever; the notice of its death waits for the mutex the loop holds, and the
  call never returns.
\<close>

theorem queue_returns_iff_granted:
  assumes "env_laws E" "s = fold (sm_step E) calls (construct E)" "t = exec (assertStateLocked E) s"
  shows "(\<exists>fuel. result (createEventQueue E fuel) s = Some q) \<longleftrightarrow>
    (case mSensorServer t of
       None \<Rightarrow> q = None
     | Some srv \<Rightarrow> \<exists>k. q = env_createConnection E (refused k srv (sm_hist t)) srv \<and> q \<noteq> None \<and>
         (\<forall>j<k. env_createConnection E (refused j srv (sm_hist t)) srv = None))"
proof -
  have i: "sm_inv s" unfolding assms(2) using assms(1) by (rule run_sm_inv)
  have more: "(\<exists>fuel. result (createEventQueue E fuel) u = Some q) \<longleftrightarrow> (\<exists>fuel. result (createEventQueue E (Suc fuel)) u = Some q)"
    for u q
  proof
    assume "\<exists>fuel. result (createEventQueue E fuel) u = Some q"
    then obtain fuel where f: "result (createEventQueue E fuel) u = Some q" by blast
    then show "\<exists>fuel. result (createEventQueue E (Suc fuel)) u = Some q" by (cases fuel) (simp, blast)
  qed blast
  note r = queue_first_round [OF assms(1) i, folded assms(3)]
  show ?thesis
  proof (cases "mSensorServer t")
    case None
    then show ?thesis unfolding more [of s] r by auto
  next
    case (Some srv)
    then have "(\<exists>fuel. result (createEventQueue E (Suc fuel)) s = Some q) \<longleftrightarrow> (\<exists>fuel. result (createEventQueue E (Suc fuel)) t = Some q)"
      unfolding r by simp
    with queue_connected [OF Some, of E q] Some show ?thesis unfolding more [of s] more [of t] by simp
  qed
qed

theorem queue_returns_iff_granted_witness:
  "(\<exists>fuel. result (createEventQueue demo_env fuel) (construct demo_env) = Some (Some 9)) \<and>
   (\<exists>fuel. result (createEventQueue lost_env fuel) (construct lost_env) = Some None)"
proof
  have "exec (assertStateLocked demo_env) (construct demo_env) = construct demo_env"
    unfolding demo_construct by (simp add: assertStateLocked_def exec_bind)
  moreover have "mSensorServer (construct demo_env) = Some 7" by (simp add: demo_construct)
  moreover have "\<exists>k. Some 9 = env_createConnection demo_env (refused k 7 (sm_hist (construct demo_env))) 7 \<and> Some 9 \<noteq> (None :: nat option) \<and>
      (\<forall>j<k. env_createConnection demo_env (refused j 7 (sm_hist (construct demo_env))) 7 = None)"
    unfolding demo_construct by (rule exI [of _ 1]) (simp add: demo_env_def refused_def)
  ultimately show "\<exists>fuel. result (createEventQueue demo_env fuel) (construct demo_env) = Some (Some 9)"
    using queue_returns_iff_granted [OF demo_env_laws, of "construct demo_env" "[]" _ "Some 9"] by simp
  have "mSensorServer (exec (assertStateLocked lost_env) (construct lost_env)) = None"
    by (intro lost_assert) (simp add: construct_def lost_assert sm_empty_def)
  then show "\<exists>fuel. result (createEventQueue lost_env fuel) (construct lost_env) = Some None"
    using queue_returns_iff_granted [OF lost_env_laws, of "construct lost_env" "[]" _ None] by simp
qed

text \<open>
  C19. The sensor list has its type: in any state calls and deaths of the service lead to, the
  list is the null pointer and there are no sensors exactly while there is no server, and
  otherwise it holds a pointer to each element of the vector in order, none of them dangling.
  So \<^verbatim>\<open>getSensorList\<close> gives its caller a negative status and no list, or the number of
  sensors and a list of that many good pointers, never a null list.
\<close>

theorem sensor_list_wellformed:
  assumes "env_laws E" "s = fold (sm_step E) calls (construct E)" "t = exec (getSensorList E) s"
  shows "(mSensorList s = None \<longleftrightarrow> mSensorServer s = None) \<and>
    (case mSensorList s of None \<Rightarrow> mSensors s = [] | Some ps \<Rightarrow> ps = [0..<length (mSensors s)]) \<and>
    (case result (getSensorList E) s of (n, list) \<Rightarrow>
       if mSensorServer t = None then n < 0 \<and> list = None
       else n = int (length (mSensors t)) \<and> list = Some (Some [0..<length (mSensors t)]))"
proof -
  have i: "sm_inv s" unfolding assms(2) using assms(1) by (rule run_sm_inv)
  note a = assert_connects [OF assms(1) i]
  have t: "t = exec (assertStateLocked E) s" by (simp add: assms(3) getSensorList_def exec_bind)
  have "case result (getSensorList E) s of (n, list) \<Rightarrow>
       if mSensorServer t = None then n < 0 \<and> list = None
       else n = int (length (mSensors t)) \<and> list = Some (Some [0..<length (mSensors t)])"
    using a(1-3) by (auto simp: t getSensorList_def result_bind sm_inv_def split: option.splits)
  with i show ?thesis by (auto simp: sm_inv_def split: option.splits)
qed

theorem sensor_list_wellformed_witness:
  "result (getSensorList demo_env) (construct demo_env) = (3, Some (Some [0..<3])) \<and>
   mSensorList (exec sensorManagerDied (construct demo_env)) = None \<and>
   mSensors (exec sensorManagerDied (construct demo_env)) = []"
proof -
  let ?s = "construct demo_env" and ?d = "exec sensorManagerDied (construct demo_env)"
  have t: "mSensorServer (exec (getSensorList demo_env) ?s) = Some 7" "length (mSensors (exec (getSensorList demo_env) ?s)) = 3"
    unfolding demo_construct by (simp_all add: getSensorList_def assertStateLocked_def exec_bind demo_env_def)
  have d: "mSensorServer ?d = None" by (simp add: sensorManagerDied_def exec_bind)
  have "?s = fold (sm_step demo_env) [] ?s" "?d = fold (sm_step demo_env) [ServiceDied] ?s" by simp_all
  note ok = sensor_list_wellformed [OF demo_env_laws this(1) refl] sensor_list_wellformed [OF demo_env_laws this(2) refl]
  from ok(1) t have "result (getSensorList demo_env) ?s = (3, Some (Some [0..<3]))"
    by (cases "result (getSensorList demo_env) ?s") simp
  moreover from ok(2) d have "mSensorList ?d = None" by blast
  moreover from ok(2) this have "mSensors ?d = []" by simp
  ultimately show ?thesis by blast
qed

end
