(* ===== verification/Shims.thy ===== *)
theory Shims
  imports Prelude
begin

text \<open>
  Names that old vendor binaries look for, \<^verbatim>\<open>shim/shim_fence.cpp\<close> and
  \<^verbatim>\<open>shim/shim_icu53.c\<close>: functions that pass their arguments on to libraries outside this
  repository, which are a parameter. Pointers are addresses.
\<close>

section \<open>The fence\<close>

text \<open>
  \<^verbatim>\<open>Fence::wait(unsigned int)\<close> calls \<^verbatim>\<open>Fence::wait(int)\<close>; the object the
  member function is called on is not a parameter of the function as it is written.
\<close>

definition fence_wait :: "(int \<Rightarrow> ('s, int) state) \<Rightarrow> u32 \<Rightarrow> ('s, int) state" where
  "fence_wait wait timeout = wait (sint timeout)"

text \<open>A timeout below half the range is kept; above it turns negative, the largest into -1, to wait for ever.\<close>

lemma fence_timeout:
  "uint timeout < 2 ^ 31 \<Longrightarrow> fence_wait wait timeout = wait (uint timeout)"
  "2 ^ 31 \<le> uint timeout \<Longrightarrow> fence_wait wait timeout = wait (uint timeout - 2 ^ 32)"
proof -
  show "uint timeout < 2 ^ 31 \<Longrightarrow> fence_wait wait timeout = wait (uint timeout)"
    by (simp add: fence_wait_def sint_small)
  assume "2 ^ 31 \<le> uint timeout"
  moreover have "uint timeout < 2 ^ 32" using uint_lt2p [of timeout] by simp
  moreover have "(uint timeout + 2147483648) mod 4294967296 = (uint timeout + 2147483648 - 4294967296) mod 4294967296"
    by (rule minus_mod_self2 [symmetric])
  ultimately have "sint timeout = uint timeout - 2 ^ 32"
    by (simp add: sint_uint signed_take_bit_eq_take_bit_shift take_bit_eq_mod)
  then show "fence_wait wait timeout = wait (uint timeout - 2 ^ 32)" by (simp add: fence_wait_def)
qed

section \<open>The converters of ICU\<close>

record 's icu =
  ucnv_open :: "u32 \<Rightarrow> u32 \<Rightarrow> ('s, u32) state"
  ucnv_close :: "u32 \<Rightarrow> ('s, unit) state"
  UCNV_TO_U_CALLBACK_STOP :: "u32 \<Rightarrow> u32 \<Rightarrow> u32 \<Rightarrow> s32 \<Rightarrow> u32 \<Rightarrow> u32 \<Rightarrow> ('s, unit) state"
  UCNV_FROM_U_CALLBACK_STOP :: "u32 \<Rightarrow> u32 \<Rightarrow> u32 \<Rightarrow> s32 \<Rightarrow> s32 \<Rightarrow> u32 \<Rightarrow> u32 \<Rightarrow> ('s, unit) state"
  ucnv_setToUCallBack :: "u32 \<Rightarrow> u32 \<Rightarrow> u32 \<Rightarrow> u32 \<Rightarrow> u32 \<Rightarrow> u32 \<Rightarrow> ('s, unit) state"
  ucnv_setFromUCallBack :: "u32 \<Rightarrow> u32 \<Rightarrow> u32 \<Rightarrow> u32 \<Rightarrow> u32 \<Rightarrow> u32 \<Rightarrow> ('s, unit) state"
  ucnv_convertEx :: "u32 \<Rightarrow> u32 \<Rightarrow> u32 \<Rightarrow> u32 \<Rightarrow> u32 \<Rightarrow> u32 \<Rightarrow> u32 \<Rightarrow> u32 \<Rightarrow> u32 \<Rightarrow> u32 \<Rightarrow> u8 \<Rightarrow> u8 \<Rightarrow> u32 \<Rightarrow> ('s, unit) state"

definition ucnv_open_53 :: "'s icu \<Rightarrow> u32 \<Rightarrow> u32 \<Rightarrow> ('s, u32) state" where
  "ucnv_open_53 I converterName err = ucnv_open I converterName err"

definition ucnv_close_53 :: "'s icu \<Rightarrow> u32 \<Rightarrow> ('s, unit) state" where
  "ucnv_close_53 I converter = ucnv_close I converter"

definition UCNV_TO_U_CALLBACK_STOP_53 ::
    "'s icu \<Rightarrow> u32 \<Rightarrow> u32 \<Rightarrow> u32 \<Rightarrow> s32 \<Rightarrow> u32 \<Rightarrow> u32 \<Rightarrow> ('s, unit) state" where
  "UCNV_TO_U_CALLBACK_STOP_53 I ctxt toUArgs codeUnits len reason err =
     UCNV_TO_U_CALLBACK_STOP I ctxt toUArgs codeUnits len reason err"

definition UCNV_FROM_U_CALLBACK_STOP_53 ::
    "'s icu \<Rightarrow> u32 \<Rightarrow> u32 \<Rightarrow> u32 \<Rightarrow> s32 \<Rightarrow> s32 \<Rightarrow> u32 \<Rightarrow> u32 \<Rightarrow> ('s, unit) state" where
  "UCNV_FROM_U_CALLBACK_STOP_53 I ctxt fromUArgs codeUnits len codePoint reason err =
     UCNV_FROM_U_CALLBACK_STOP I ctxt fromUArgs codeUnits len codePoint reason err"

definition ucnv_setToUCallBack_53 ::
    "'s icu \<Rightarrow> u32 \<Rightarrow> u32 \<Rightarrow> u32 \<Rightarrow> u32 \<Rightarrow> u32 \<Rightarrow> u32 \<Rightarrow> ('s, unit) state" where
  "ucnv_setToUCallBack_53 I converter newAction newContext oldAction oldContext err =
     ucnv_setToUCallBack I converter newAction newContext oldAction oldContext err"

definition ucnv_setFromUCallBack_53 ::
    "'s icu \<Rightarrow> u32 \<Rightarrow> u32 \<Rightarrow> u32 \<Rightarrow> u32 \<Rightarrow> u32 \<Rightarrow> u32 \<Rightarrow> ('s, unit) state" where
  "ucnv_setFromUCallBack_53 I converter newAction newContext oldAction oldContext err =
     ucnv_setFromUCallBack I converter newAction newContext oldAction oldContext err"

definition ucnv_convertEx_53 ::
    "'s icu \<Rightarrow> u32 \<Rightarrow> u32 \<Rightarrow> u32 \<Rightarrow> u32 \<Rightarrow> u32 \<Rightarrow> u32 \<Rightarrow> u32 \<Rightarrow> u32 \<Rightarrow> u32 \<Rightarrow> u32 \<Rightarrow> u8 \<Rightarrow> u8 \<Rightarrow> u32 \<Rightarrow> ('s, unit) state" where
  "ucnv_convertEx_53 I targetCnv sourceCnv target targetLimit source sourceLimit pivotStart pivotSource pivotTarget
       pivotLimit reset flush pErrorCode =
     ucnv_convertEx I targetCnv sourceCnv target targetLimit source sourceLimit pivotStart pivotSource pivotTarget
       pivotLimit reset flush pErrorCode"

end
