(* ===== verification/Spec2Isabelle.thy ===== *)
theory Spec2Isabelle
  imports Lights PowerGovernor MetadataMaps CameraParcel BufferDump AllocatorThreads ColorConvert Pstore SensorManager Shims
begin

text \<open>
  A verification library for the native code of the device tree of the tablet: the hardware
  modules, the crash dump cleaner, the colour converter and the compatibility libraries that
  stand between old vendor binaries and the system.

  \<^bold>\<open>The program and its model.\<close> The programs share no state; each is a library or a
  process of its own. What they share is their surroundings, and these are parameters.

  \<^item> \<open>Prelude\<close>: names of the C types on the 32-bit x86 target, status codes, the state monad
    in which stateful code is written (\<open>exec\<close> is the final state, \<open>result\<close> the value),
    decimal printing and parsing as in the C library, reachable states of guarded machines, the
    locales \<open>machine\<close> and \<open>free_machine\<close> that carry an invariant over sequences of calls, and the
    locale \<open>simulation\<close>, which extends \<open>machine\<close> by a specification and carries a refinement.
  \<^item> \<open>Posix\<close>: system calls. Each leaves an event in a history; its outcome is chosen by a
    parameter, a function of the history and the arguments, so a theorem for every parameter
    covers errors, partial transfers and any interleaving with the rest of the system. The
    locale \<open>file_writer\<close> is the contract of a routine that writes one value to one file; it is
    interpreted on \<^verbatim>\<open>write_int\<close> and on \<^verbatim>\<open>sysfs_write\<close>. \<open>PosixRuns\<close> is a small
    logic for what a run adds to the history.
  \<^item> \<open>Float32\<close>: single-precision rounding, which the light and power modules depend on.
  \<^item> \<open>Lights\<close> (\<^verbatim>\<open>liblight/lights.c\<close>): the requests kept for the one indicator light,
    their priority, the LED and backlight files, opening and closing devices.
  \<^item> \<open>PowerHal\<close> (\<^verbatim>\<open>libpower/power.c\<close>): the flags of the touch boost, intervals in
    single precision, the vsync budget, the trigger file. \<open>PowerGovernor\<close>: what the module
    promises, on integer time with one flag and one budget, and the simulation of it, an
    interpretation of \<open>simulation\<close>.
  \<^item> \<open>CameraMetadata\<close> (\<^verbatim>\<open>shim/camera/CameraMetadata.cpp\<close>): objects that own buffers on
    a heap with explicit allocation, freeing and a flag for bad accesses, the read of update data
    included; ownership moves with the calls. \<open>cam_guard\<close> is the contract of the interface: among
    other things no object is appended to itself and no update data starts exactly where the own
    buffer starts, since in these two cases the code itself reads freed memory, as two theorems show.
    \<open>MetadataMaps\<close>: the specification of the class, maps from tags to data with a
    lock and no heap, and the simulation of it by the heap model, an interpretation of
    \<open>simulation\<close>. \<open>CameraParcel\<close>: its form in a parcel, on the reading side over bytes that may
    be forged. The metadata library and the class \<^verbatim>\<open>Parcel\<close> are parameters.
  \<^item> \<open>Gralloc\<close>: the graphics memory module, a parameter, and the locale \<open>buffer_allocator\<close>, the
    contract between an allocator and the slots that own what it gives out.
    \<open>GraphicBufferAllocator\<close>, \<open>GraphicBufferMapper\<close> and \<open>GraphicBuffer\<close> (the files of
    these names in \<^verbatim>\<open>shim/ui\<close>) are layered as the code is: the buffer object calls the
    allocator, whose model interprets the locale, and the mapper, which waits for fences.
    Of the calls on buffer objects nothing is excluded: \<open>gb_track\<close> keeps beside the state the
    handles that unflattening drops when it finds too large counts, the one path that leaks.
    \<open>BufferDump\<close> puts object and allocator together: what the list says of the objects.
    \<open>AllocatorThreads\<close> splits the allocator's calls into the call of gralloc, which is made
    without the mutex, and the change of the list, which is made with it, and interleaves threads.
  \<^item> \<open>ColorConvert\<close> (\<^verbatim>\<open>libcolor/ColorConvert.cpp\<close>): the loops over byte buffers with
    checked accesses and wrapping \<^verbatim>\<open>int\<close> arithmetic; images as the abstract view of the
    two memory layouts.
  \<^item> \<open>Pstore\<close> (\<^verbatim>\<open>pstore/pstore-clean.c\<close>): the whole program, each \<^verbatim>\<open>goto\<close> an exit
    label; the configuration library is a parameter.
  \<^item> \<open>SensorManager\<close> (\<^verbatim>\<open>shim/gui/SensorManager.cpp\<close>): the connection to the sensor
    service, the sensor list as pointers into the vector, default sensors, event queues. The
    notice of the service's death is a call like the others, because the mutex keeps it out of
    the middle of a call.
  \<^item> \<open>Shims\<close> (\<^verbatim>\<open>shim/shim_fence.cpp\<close>, \<^verbatim>\<open>shim/shim_icu53.c\<close>): forwarding
    functions; what they call is a parameter.

  \<^bold>\<open>What the lemmas show.\<close> Each theory ends with its properties, the ones marked by a
  number, after the lemmas they rest on.

  \<^item> Invariants over all sequences of calls: the flags of the power module, ownership of metadata
    buffers and of graphics handles (nothing freed twice, and nothing leaked but on the path
    named above), the allocation list, also under threads, and its entry for each object, the
    sensor list.
  \<^item> Function: what the LEDs show, which touches write the trigger, updates that are found
    again, the first sensor of a type, which files the cleaner removes and keeps, its
    bookkeeping at every end.
  \<^item> Refinement and equivalence: the metadata objects are maps, the power module is a governor on
    integer time, the two colour conversions are
    cropping and keeping of images of even sizes, single-precision comparisons and scaling are the integer
    ones, the base name of a dump is the specified one.
  \<^item> Round trips: integers through files, metadata through parcels, graphic buffers through their
    flat form, frames through the encoder's layout and back.
  \<^item> Safety and bounds on hostile input: forged parcels and forged flat buffers, lock areas,
    fences, sizes that overflow.
  \<^item> Termination and liveness: the cleaner ends on finite input, connecting to the sensor service
    takes at most four tries, a call for an event queue returns exactly if there is no
    connection or the service grants one.
  \<^item> Errors: results for every behaviour of the calls, and theorems that exhibit the faults found
    while modelling.

  \<^bold>\<open>Fuel and bounds.\<close> Loops over system input and the loop of
  \<^verbatim>\<open>createEventQueue\<close> run on fuel and give \<open>None\<close> while they have not ended, so no
  statement holds because a loop stops early: safety statements hold for every fuel, and for the
  cleaner fuel above the number of inputs is shown to be enough. All other loops terminate by a
  measure. Integers have their width in \<^verbatim>\<open>Word\<close>, or wrap explicitly in \<open>ColorConvert\<close>;
  signed overflow is taken to wrap as the target does.

  \<^bold>\<open>Not modelled.\<close> Logging, the formatting of dumps, and the freeing of local lists at exit. The
  code under \<^verbatim>\<open>QCOM_BSP_LEGACY\<close> and \<^verbatim>\<open>VIDEOEDITOR_INTEL_NV12_VERSION\<close>, which this
  device does not compile. Tables that only name functions. Running out of memory in the
  sensor manager. What the allocator and the mapper do when their constructors opened no
  module: the calls would follow a null pointer. Under which calling convention the fence function is reached. The constants of
  \<^verbatim>\<open>bluetooth/bdroid_buildcfg.h\<close>; build files, init scripts, security policy,
  resources and vendor extraction scripts, which are no C or C++ code. Threads inside a call,
  except in the allocator: the light requests and the sensor manager hold a mutex for the whole
  call; \<^verbatim>\<open>power.c\<close>, which has none, and the metadata and buffer objects, which leave
  locking to their users, are modelled with calls that do not overlap.
\<close>

end
